theory Spec2Isabelle
  imports Main "HOL-Library.AList"
begin

section \<open>Python values, dictionaries and exceptions\<close>

text \<open>
  A document is the JSON-like value tree that \<^verbatim>\<open>dataobject.py\<close> reads and writes:
  a dictionary from string keys to values. Numbers are modelled as unbounded integers.
  Values of this type are immutable trees; the aliasing between documents that
  \<^verbatim>\<open>deepcopy\<close> exists to break is modelled separately, on an explicit object store,
  in the last sections of this theory.
\<close>

datatype pyval =
    PNone
  | PBool bool
  | PInt int
  | PStr string
  | PList "pyval list"
  | PDict "(string \<times> pyval) list"

type_synonym document = "(string \<times> pyval) list"

text \<open>
  The exceptions that can leave the functions of the module. \<open>KeyError\<close> carries the
  missing key, \<open>ValueError\<close> its message. \<open>OtherError\<close> stands for an exception
  of any other class raised by the code of a field.
\<close>

datatype error =
    KeyError string
  | ValueError string
  | TypeError
  | AttributeError string
  | OtherError string

text \<open>
  A Python dictionary is modelled by an association list. \<open>d[k] = v\<close> is
  \<^const>\<open>AList.update\<close> (an existing key keeps its place, a new key goes to the end),
  \<open>del d[k]\<close> is \<^const>\<open>AList.delete\<close>, \<open>d[k]\<close> and \<open>k in d\<close> are
  \<^const>\<open>map_of\<close>. \<open>d.update(e)\<close> stores the items of \<open>e\<close> one after the other.

  The module runs on Python 2, where the iteration order of a \<open>dict\<close> is fixed by the
  hashes of its keys and not by the program. The association list iterates in insertion
  order, the reading under which a statement about iteration order has any content;
  every statement that does not mention order is made through \<^const>\<open>map_of\<close> only.
\<close>

definition dict_update :: "('k \<times> 'a) list \<Rightarrow> ('k \<times> 'a) list \<Rightarrow> ('k \<times> 'a) list" where
  "dict_update d e = foldl (\<lambda>acc (k, v). AList.update k v acc) d e"

text \<open>
  \<open>copy.deepcopy\<close> on a value tree: atoms are returned as they are, lists and
  dictionaries are rebuilt from the copies of their members.
\<close>

primrec deepcopy :: "pyval \<Rightarrow> pyval" where
  "deepcopy PNone = PNone"
| "deepcopy (PBool b) = PBool b"
| "deepcopy (PInt i) = PInt i"
| "deepcopy (PStr s) = PStr s"
| "deepcopy (PList xs) = PList (map deepcopy xs)"
| "deepcopy (PDict kvs) = PDict (map (map_prod id deepcopy) kvs)"

definition deepcopy_dict :: "document \<Rightarrow> document" where
  "deepcopy_dict d = map (map_prod id deepcopy) d"

section \<open>Instances, field descriptors and classes\<close>

text \<open>
  A \<open>DataObject\<close> instance: the identity of its class, its \<open>__dict__\<close> (attribute values
  are of whatever type \<open>'v\<close> the fields produce) and the \<open>_originaldata\<close> attribute,
  \<open>None\<close> while \<open>hasattr(self, '_originaldata')\<close> is false.
\<close>

record 'v "instance" =
  inst_type :: nat
  inst_dict :: "(string \<times> 'v) list"
  originaldata :: "document option"

text \<open>
  A call that mutates an instance either returns or raises; in both cases the instance
  is left in some state.
\<close>

datatype 's outcome = Returned 's | Raised error 's

primrec state_of :: "'s outcome \<Rightarrow> 's" where
  "state_of (Returned s) = s"
| "state_of (Raised e s) = s"

text \<open>
  The classes of \<open>remoteobjects.fields\<close> are not part of this module; the module uses
  a descriptor only through the following interface.
  \<^item> \<open>is_Field\<close>: \<open>isinstance(v, remoteobjects.fields.Field)\<close> (every descriptor is an
    instance of \<open>remoteobjects.fields.Property\<close>);
  \<^item> \<open>of_cls\<close>: the attribute the metaclass sets to the class that declares the field;
  \<^item> \<open>install\<close>: \<open>field.install(attrname)\<close>, \<open>None\<close> when it raises
    \<open>NotImplementedError\<close>, otherwise the replacement object;
  \<^item> \<open>decode_into\<close>, \<open>encode_into\<close>: \<open>None\<close> when \<open>hasattr\<close> says the method is absent;
    \<open>decode_into data obj field_name\<close> mutates the instance and may raise,
    \<open>encode_into obj data field_name\<close> mutates the dictionary it is given and may raise.
\<close>

record 'v property =
  is_Field :: bool
  of_cls :: "nat option"
  install :: "string \<Rightarrow> 'v option"
  decode_into :: "(document \<Rightarrow> 'v instance \<Rightarrow> string \<Rightarrow> 'v instance outcome) option"
  encode_into :: "('v instance \<Rightarrow> document \<Rightarrow> string \<Rightarrow> error + document) option"

text \<open>
  An attribute of a class body is a descriptor (\<open>isinstance(field, Property)\<close>) or any
  other object.
\<close>

datatype 'v attr = Property "'v property" | Plain 'v

text \<open>
  A class built by \<open>DataObjectMetaclass\<close>: its identity, its name, its namespace
  (without the entry \<open>'fields'\<close>) and the dictionary stored under \<open>'fields'\<close>.
\<close>

record 'v dataclass =
  cls_id :: nat
  cls_name :: string
  cls_attrs :: "(string \<times> 'v attr) list"
  cls_fields :: "(string \<times> 'v property) list"

text \<open>A base class: built by the metaclass, or not (\<open>object\<close>, a mixin).\<close>

datatype 'v base = DataObjectClass "'v dataclass" | OtherClass

text \<open>
  The module-level registries. The keys of the inner dictionaries of
  \<open>classes_by_constant_field\<close> are tuples, here the lists of their members.
  \<open>next_id\<close> is the identity the next class object gets.
\<close>

record 'v world =
  next_id :: nat
  classes_by_name :: "(string \<times> 'v dataclass) list"
  classes_by_constant_field :: "(string \<times> (pyval list \<times> string) list) list"

section \<open>The registry functions\<close>

definition find_by_name :: "'v world \<Rightarrow> string \<Rightarrow> error + 'v dataclass" where
  "find_by_name w name =
     (case map_of (classes_by_name w) name of
        None \<Rightarrow> Inl (KeyError name)
      | Some c \<Rightarrow> Inr c)"

text \<open>
  \<open>tuple(value)\<close>: the characters of a string, the members of a list, the keys of a
  dictionary; \<open>TypeError\<close> for a value that is not iterable.
\<close>

fun py_tuple :: "pyval \<Rightarrow> error + pyval list" where
  "py_tuple (PStr s) = Inr (map (\<lambda>c. PStr [c]) s)"
| "py_tuple (PList xs) = Inr xs"
| "py_tuple (PDict kvs) = Inr (map (\<lambda>kv. PStr (fst kv)) kvs)"
| "py_tuple PNone = Inl TypeError"
| "py_tuple (PBool b) = Inl TypeError"
| "py_tuple (PInt i) = Inl TypeError"

text \<open>
  A tuple is a dictionary key only if its members are hashable (lists and dictionaries
  are not: subscripting with such a tuple raises \<open>TypeError\<close>), and two keys are the
  same when they compare equal, where \<open>True == 1\<close> and \<open>False == 0\<close>.
\<close>

fun hashable :: "pyval \<Rightarrow> bool" where
  "hashable (PList xs) = False"
| "hashable (PDict kvs) = False"
| "hashable v = True"

fun atom_eq :: "pyval \<Rightarrow> pyval \<Rightarrow> bool" where
  "atom_eq PNone PNone = True"
| "atom_eq (PBool a) (PBool b) = (a = b)"
| "atom_eq (PInt a) (PInt b) = (a = b)"
| "atom_eq (PBool a) (PInt b) = ((if a then 1 else 0) = b)"
| "atom_eq (PInt a) (PBool b) = (a = (if b then 1 else 0))"
| "atom_eq (PStr a) (PStr b) = (a = b)"
| "atom_eq v w = False"

fun tuple_lookup :: "(pyval list \<times> 'a) list \<Rightarrow> pyval list \<Rightarrow> 'a option" where
  "tuple_lookup [] t = None"
| "tuple_lookup ((k, v) # kvs) t = (if list_all2 atom_eq k t then Some v else tuple_lookup kvs t)"

text \<open>
  The message of the \<open>ValueError\<close>. \<open>repr\<close> is Python's built-in, a parameter here.
\<close>

definition no_such_subclass :: "(pyval \<Rightarrow> string) \<Rightarrow> string \<Rightarrow> string \<Rightarrow> pyval \<Rightarrow> string" where
  "no_such_subclass repr name fieldname value =
     ''No such subclass of '' @ name @ '' with field '' @ repr (PStr fieldname)
       @ '' equivalent to '' @ repr value"

text \<open>
  \<open>DataObject.subclass_with_constant_field\<close>. The subscription
  \<open>classes_by_constant_field[fieldname][tuple(value)]\<close> evaluates
  \<open>classes_by_constant_field[fieldname]\<close> first, then \<open>tuple(value)\<close>, then the outer
  subscription. Only \<open>KeyError\<close> is caught; \<open>find_by_name\<close> runs in the \<open>else\<close>
  branch, outside the \<open>try\<close>.
\<close>

definition subclass_with_constant_field ::
    "(pyval \<Rightarrow> string) \<Rightarrow> 'v world \<Rightarrow> 'v dataclass \<Rightarrow> string \<Rightarrow> pyval \<Rightarrow> error + 'v dataclass" where
  "subclass_with_constant_field repr w cls fieldname value =
     (case map_of (classes_by_constant_field w) fieldname of
        None \<Rightarrow> Inl (ValueError (no_such_subclass repr (cls_name cls) fieldname value))
      | Some by_value \<Rightarrow>
          (case py_tuple value of
             Inl e \<Rightarrow> Inl e
           | Inr t \<Rightarrow>
               if \<not> list_all hashable t then Inl TypeError
               else (case tuple_lookup by_value t of
                       None \<Rightarrow> Inl (ValueError (no_such_subclass repr (cls_name cls) fieldname value))
                     | Some clsname \<Rightarrow> find_by_name w clsname)))"

section \<open>The metaclass\<close>

text \<open>
  The first loop of \<open>DataObjectMetaclass.__new__\<close>: the \<open>fields\<close> dictionaries of the
  bases that are \<open>DataObject\<close> classes, merged in the order of \<open>bases\<close>.
\<close>

definition inherit_fields :: "'v base list \<Rightarrow> (string \<times> 'v property) list" where
  "inherit_fields bases =
     foldl (\<lambda>flds base. case base of
                              DataObjectClass b \<Rightarrow> dict_update flds (cls_fields b)
                            | OtherClass \<Rightarrow> flds) [] bases"

text \<open>
  One round of the second loop, on the state \<open>(fields, new_fields, attrs)\<close>
  (the variable \<open>fields\<close> is written \<open>flds\<close>). The loop
  runs over \<open>attrs.items()\<close>, a list made before the first round, so the rounds see the
  attributes as declared while \<open>attrs\<close> itself is updated.
\<close>

fun collect_attr ::
    "(string \<times> 'v property) list \<times> (string \<times> 'v property) list \<times> (string \<times> 'v attr) list
      \<Rightarrow> string \<times> 'v attr
      \<Rightarrow> (string \<times> 'v property) list \<times> (string \<times> 'v property) list \<times> (string \<times> 'v attr) list" where
  "collect_attr (flds, new_fields, attrs) (attrname, Property field) =
     (case install field attrname of
        None \<Rightarrow> (flds, AList.update attrname field new_fields, AList.delete attrname attrs)
      | Some repl \<Rightarrow>
          (flds, AList.update attrname field new_fields,
           AList.update attrname (Plain repl) attrs))"
| "collect_attr (flds, new_fields, attrs) (attrname, Plain v) =
     (if attrname \<in> set (map fst flds)
      then (AList.delete attrname flds, new_fields, attrs)
      else (flds, new_fields, attrs))"

text \<open>
  \<open>DataObjectMetaclass.__new__(cls, name, bases, attrs)\<close>: returns the new class and the
  registries with the class stored under its name. The descriptors of \<open>new_fields\<close> are
  the objects that \<open>fields\<close> holds after \<open>fields.update(new_fields)\<close>, so setting their
  \<open>of_cls\<close> shows in the new class's \<open>fields\<close>.
\<close>

definition DataObjectMetaclass_new ::
    "'v world \<Rightarrow> string \<Rightarrow> 'v base list \<Rightarrow> (string \<times> 'v attr) list \<Rightarrow> 'v dataclass \<times> 'v world" where
  "DataObjectMetaclass_new w name bases attrs =
     (case foldl collect_attr (inherit_fields bases, [], attrs) attrs of
        (flds, new_fields, attrs') \<Rightarrow>
          let obj_id = next_id w;
              installed = map (\<lambda>(k, f). (k, f\<lparr>of_cls := Some obj_id\<rparr>)) new_fields;
              obj_cls = \<lparr>cls_id = obj_id, cls_name = name,
                         cls_attrs = AList.delete ''fields'' attrs',
                         cls_fields = dict_update flds installed\<rparr>
          in (obj_cls, w\<lparr>next_id := Suc obj_id,
                          classes_by_name := AList.update name obj_cls (classes_by_name w)\<rparr>))"

section \<open>The methods of DataObject\<close>

text \<open>
  In every method the class of \<open>self\<close> is passed as \<open>cls\<close>: \<open>self.fields\<close> is the
  \<open>fields\<close> dictionary of that class.
\<close>

definition DataObject_init :: "'v dataclass \<Rightarrow> (string \<times> 'v) list \<Rightarrow> 'v instance" where
  "DataObject_init cls kwargs =
     \<lparr>inst_type = cls_id cls, inst_dict = dict_update [] kwargs, originaldata = None\<rparr>"

text \<open>
  \<open>__eq__\<close> and \<open>__ne__\<close>. \<open>getattr\<close> and the comparison \<open>!=\<close> of two attribute values
  are Python's; what they do depends on the objects the fields produced and installed,
  so both are parameters. \<open>getattr(self, k)\<close> is evaluated before \<open>getattr(other, k)\<close>.
\<close>

fun eq_fields ::
    "('v instance \<Rightarrow> string \<Rightarrow> error + 'v) \<Rightarrow> ('v \<Rightarrow> 'v \<Rightarrow> bool) \<Rightarrow> (string \<times> 'v property) list
      \<Rightarrow> 'v instance \<Rightarrow> 'v instance \<Rightarrow> error + bool" where
  "eq_fields getattr ne [] self other = Inr True"
| "eq_fields getattr ne ((k, v) # rest) self other =
     (if is_Field v then
        (case getattr self k of
           Inl e \<Rightarrow> Inl e
         | Inr a \<Rightarrow>
             (case getattr other k of
                Inl e \<Rightarrow> Inl e
              | Inr b \<Rightarrow> if ne a b then Inr False else eq_fields getattr ne rest self other))
      else eq_fields getattr ne rest self other)"

definition DataObject_eq ::
    "('v instance \<Rightarrow> string \<Rightarrow> error + 'v) \<Rightarrow> ('v \<Rightarrow> 'v \<Rightarrow> bool) \<Rightarrow> 'v dataclass
      \<Rightarrow> 'v instance \<Rightarrow> 'v instance \<Rightarrow> error + bool" where
  "DataObject_eq getattr ne cls self other =
     (if inst_type self \<noteq> inst_type other then Inr False
      else eq_fields getattr ne (cls_fields cls) self other)"

definition DataObject_ne ::
    "('v instance \<Rightarrow> string \<Rightarrow> error + 'v) \<Rightarrow> ('v \<Rightarrow> 'v \<Rightarrow> bool) \<Rightarrow> 'v dataclass
      \<Rightarrow> 'v instance \<Rightarrow> 'v instance \<Rightarrow> error + bool" where
  "DataObject_ne getattr ne cls self other =
     (case DataObject_eq getattr ne cls self other of
        Inl e \<Rightarrow> Inl e
      | Inr b \<Rightarrow> Inr (\<not> b))"

text \<open>The loop of \<open>to_dict\<close> over \<open>self.fields.iteritems()\<close>.\<close>

fun encode_fields ::
    "(string \<times> 'v property) list \<Rightarrow> 'v instance \<Rightarrow> document \<Rightarrow> error + document" where
  "encode_fields [] self data = Inr data"
| "encode_fields ((field_name, field) # rest) self data =
     (case encode_into field of
        None \<Rightarrow> encode_fields rest self data
      | Some enc \<Rightarrow>
          (case enc self data field_name of
             Inl e \<Rightarrow> Inl e
           | Inr data' \<Rightarrow> encode_fields rest self data'))"

definition to_dict :: "'v dataclass \<Rightarrow> 'v instance \<Rightarrow> error + document" where
  "to_dict cls self =
     encode_fields (cls_fields cls) self
       (case originaldata self of
          Some od \<Rightarrow> deepcopy_dict od
        | None \<Rightarrow> [])"

text \<open>The loop of \<open>update_from_dict\<close> over \<open>self.fields.iteritems()\<close>.\<close>

fun decode_fields ::
    "(string \<times> 'v property) list \<Rightarrow> document \<Rightarrow> 'v instance \<Rightarrow> 'v instance outcome" where
  "decode_fields [] data self = Returned self"
| "decode_fields ((field_name, field) # rest) data self =
     (case decode_into field of
        None \<Rightarrow> decode_fields rest data self
      | Some dec \<Rightarrow>
          (case dec data self field_name of
             Raised e self' \<Rightarrow> Raised e self'
           | Returned self' \<Rightarrow> decode_fields rest data self'))"

text \<open>
  The first three lines of \<open>update_from_dict\<close>: \<open>_originaldata\<close> is created when absent
  and updated with a deep copy of \<open>data\<close>.
\<close>

definition remember :: "'v instance \<Rightarrow> document \<Rightarrow> 'v instance" where
  "remember self data =
     self\<lparr>originaldata :=
            Some (dict_update (case originaldata self of None \<Rightarrow> [] | Some od \<Rightarrow> od)
                              (deepcopy_dict data))\<rparr>"

definition update_from_dict :: "'v dataclass \<Rightarrow> 'v instance \<Rightarrow> document \<Rightarrow> 'v instance outcome" where
  "update_from_dict cls self data = decode_fields (cls_fields cls) data (remember self data)"

definition from_dict :: "'v dataclass \<Rightarrow> document \<Rightarrow> 'v instance outcome" where
  "from_dict cls data = update_from_dict cls (DataObject_init cls []) data"

section \<open>Objects in a store\<close>

text \<open>
  Lists and dictionaries are mutable objects, and two variables can hold the same one.
  Where that matters the values live in a store: a value is an atom or a reference to a
  cell, a cell holds a list or a dictionary, the address of a cell is its index, and a
  new object goes to the end of the store.
\<close>

type_synonym addr = nat

datatype hval = HNone | HBool bool | HInt int | HStr string | HRef addr

datatype hobj = HList "hval list" | HDict "(string \<times> hval) list"

type_synonym store = "hobj list"

fun members :: "hobj \<Rightarrow> hval list" where
  "members (HList xs) = xs"
| "members (HDict kvs) = map snd kvs"

definition refs :: "hobj \<Rightarrow> addr set" where
  "refs obj = {a. HRef a \<in> set (members obj)}"

text \<open>A store is closed when every reference in it is the address of a cell.\<close>

definition closed :: "store \<Rightarrow> bool" where
  "closed h \<longleftrightarrow> (\<forall>a < length h. \<forall>b \<in> refs (h ! a). b < length h)"

text \<open>\<open>reach h a b\<close>: the cell \<open>b\<close> is the cell \<open>a\<close> or is referred to, directly or not, from it.\<close>

inductive reach :: "store \<Rightarrow> addr \<Rightarrow> addr \<Rightarrow> bool" for h :: store and a :: addr where
  start: "a < length h \<Longrightarrow> reach h a a"
| step: "reach h a b \<Longrightarrow> c \<in> refs (h ! b) \<Longrightarrow> c < length h \<Longrightarrow> reach h a c"

text \<open>
  \<open>copy.deepcopy(x, memo)\<close>. An atom is returned as it is. For a list or a dictionary
  the memo is consulted first; otherwise an empty object \<open>y\<close> is created and entered in
  the memo, and the copies of the members of \<open>x\<close> are stored into \<open>y\<close> one by one
  (\<open>y.append(deepcopy(a, memo))\<close>, \<open>y[key] = deepcopy(value, memo)\<close>; keys are strings).
  The recursion is bounded by fuel, one unit for each object entered: the result is
  \<open>None\<close> when the fuel runs out or a reference is not the address of a cell.
\<close>

datatype slot = Append | Key string

fun store_member :: "store \<Rightarrow> addr \<Rightarrow> slot \<Rightarrow> hval \<Rightarrow> store" where
  "store_member h y Append v =
     h[y := (case h ! y of HList ys \<Rightarrow> HList (ys @ [v]) | HDict kvs \<Rightarrow> HDict kvs)]"
| "store_member h y (Key k) v =
     h[y := (case h ! y of HDict kvs \<Rightarrow> HDict (AList.update k v kvs) | HList ys \<Rightarrow> HList ys)]"

fun empty_like :: "hobj \<Rightarrow> hobj" where
  "empty_like (HList xs) = HList []"
| "empty_like (HDict kvs) = HDict []"

fun slots :: "hobj \<Rightarrow> (slot \<times> hval) list" where
  "slots (HList xs) = map (\<lambda>x. (Append, x)) xs"
| "slots (HDict kvs) = map (\<lambda>kv. (Key (fst kv), snd kv)) kvs"

fun h_deepcopy :: "nat \<Rightarrow> store \<Rightarrow> (addr \<times> addr) list \<Rightarrow> hval
                    \<Rightarrow> (store \<times> (addr \<times> addr) list \<times> hval) option"
  and h_deepcopy_members :: "nat \<Rightarrow> store \<Rightarrow> (addr \<times> addr) list \<Rightarrow> addr \<Rightarrow> (slot \<times> hval) list
                    \<Rightarrow> (store \<times> (addr \<times> addr) list) option" where
  "h_deepcopy n h memo HNone = Some (h, memo, HNone)"
| "h_deepcopy n h memo (HBool b) = Some (h, memo, HBool b)"
| "h_deepcopy n h memo (HInt i) = Some (h, memo, HInt i)"
| "h_deepcopy n h memo (HStr s) = Some (h, memo, HStr s)"
| "h_deepcopy 0 h memo (HRef a) =
     (case map_of memo a of
        Some y \<Rightarrow> Some (h, memo, HRef y)
      | None \<Rightarrow> None)"
| "h_deepcopy (Suc n) h memo (HRef a) =
     (case map_of memo a of
        Some y \<Rightarrow> Some (h, memo, HRef y)
      | None \<Rightarrow>
          if length h \<le> a then None
          else (case h_deepcopy_members n (h @ [empty_like (h ! a)]) ((a, length h) # memo)
                       (length h) (slots (h ! a)) of
                  None \<Rightarrow> None
                | Some (h', memo') \<Rightarrow> Some (h', memo', HRef (length h))))"
| "h_deepcopy_members n h memo y [] = Some (h, memo)"
| "h_deepcopy_members n h memo y ((s, x) # rest) =
     (case h_deepcopy n h memo x of
        None \<Rightarrow> None
      | Some (h', memo', v) \<Rightarrow> h_deepcopy_members n (store_member h' y s v) memo' y rest)"

text \<open>
  An instance whose attribute values and \<open>_originaldata\<close> are values of the store, and
  the two methods of a descriptor as the module calls them: \<open>decode_into\<close> gets the
  caller's dictionary and the instance, \<open>encode_into\<close> the instance and the dictionary
  to fill; both may change the store and may raise.
\<close>

record h_instance =
  h_type :: nat
  h_dict :: "(string \<times> hval) list"
  h_originaldata :: "addr option"

record h_property =
  h_decode_into :: "(store \<Rightarrow> addr \<Rightarrow> h_instance \<Rightarrow> string \<Rightarrow> (store \<times> h_instance) outcome) option"
  h_encode_into :: "(store \<Rightarrow> h_instance \<Rightarrow> addr \<Rightarrow> string \<Rightarrow> store outcome) option"

text \<open>
  \<open>to_dict\<close> on the store: the result is \<open>None\<close> when \<open>deepcopy\<close> gives none, and
  otherwise the store the call leaves with the address of the returned dictionary, or
  with the exception.
\<close>

fun h_encode_fields ::
    "(string \<times> h_property) list \<Rightarrow> store \<Rightarrow> h_instance \<Rightarrow> addr \<Rightarrow> store outcome" where
  "h_encode_fields [] h self data = Returned h"
| "h_encode_fields ((field_name, field) # rest) h self data =
     (case h_encode_into field of
        None \<Rightarrow> h_encode_fields rest h self data
      | Some enc \<Rightarrow>
          (case enc h self data field_name of
             Raised e h' \<Rightarrow> Raised e h'
           | Returned h' \<Rightarrow> h_encode_fields rest h' self data))"

definition h_to_dict ::
    "nat \<Rightarrow> (string \<times> h_property) list \<Rightarrow> store \<Rightarrow> h_instance \<Rightarrow> (store outcome \<times> addr) option" where
  "h_to_dict fuel flds h self =
     (case h_originaldata self of
        None \<Rightarrow> Some (h_encode_fields flds (h @ [HDict []]) self (length h), length h)
      | Some od \<Rightarrow>
          (case h_deepcopy fuel h [] (HRef od) of
             Some (h', memo, HRef data) \<Rightarrow> Some (h_encode_fields flds h' self data, data)
           | _ \<Rightarrow> None))"

text \<open>
  \<open>update_from_dict\<close> on the store. \<open>self._originaldata.update(deepcopy(data))\<close> stores
  the items of the copy into the dictionary \<open>_originaldata\<close> refers to; both must be
  dictionaries.
\<close>

fun h_decode_fields ::
    "(string \<times> h_property) list \<Rightarrow> store \<Rightarrow> addr \<Rightarrow> h_instance \<Rightarrow> (store \<times> h_instance) outcome" where
  "h_decode_fields [] h data self = Returned (h, self)"
| "h_decode_fields ((field_name, field) # rest) h data self =
     (case h_decode_into field of
        None \<Rightarrow> h_decode_fields rest h data self
      | Some dec \<Rightarrow>
          (case dec h data self field_name of
             Raised e hs \<Rightarrow> Raised e hs
           | Returned (h', self') \<Rightarrow> h_decode_fields rest h' data self'))"

definition h_remember :: "nat \<Rightarrow> store \<Rightarrow> h_instance \<Rightarrow> addr \<Rightarrow> (store \<times> h_instance) option" where
  "h_remember fuel h self data =
     (let h1 = (case h_originaldata self of None \<Rightarrow> h @ [HDict []] | Some od \<Rightarrow> h);
          od = (case h_originaldata self of None \<Rightarrow> length h | Some od \<Rightarrow> od)
      in case h_deepcopy fuel h1 [] (HRef data) of
           Some (h2, memo, HRef c) \<Rightarrow>
             (if od < length h2 then
                (case (h2 ! od, h2 ! c) of
                   (HDict old, HDict new) \<Rightarrow>
                     Some (h2[od := HDict (dict_update old new)], self\<lparr>h_originaldata := Some od\<rparr>)
                 | _ \<Rightarrow> None)
              else None)
         | _ \<Rightarrow> None)"

definition h_update_from_dict ::
    "nat \<Rightarrow> (string \<times> h_property) list \<Rightarrow> store \<Rightarrow> h_instance \<Rightarrow> addr
      \<Rightarrow> (store \<times> h_instance) outcome option" where
  "h_update_from_dict fuel flds h self data =
     (case h_remember fuel h self data of
        None \<Rightarrow> None
      | Some (h', self') \<Rightarrow> Some (h_decode_fields flds h' data self'))"

section \<open>What the module expects of a field\<close>

text \<open>
  The module hands every descriptor the whole instance and the whole document. Two
  properties of a field-set entry \<open>(n, f)\<close> are what the statements below ask of the
  descriptors: its \<open>decode_into\<close> leaves \<open>_originaldata\<close> alone (it stores an attribute),
  and its \<open>encode_into\<close> leaves the entry of the document under the key \<open>x\<close> alone
  (the key \<open>x\<close> is mapped to no field).
\<close>

definition keeps_originaldata :: "string \<Rightarrow> 'v property \<Rightarrow> bool" where
  "keeps_originaldata n f =
     (\<forall>dec data obj. decode_into f = Some dec \<longrightarrow>
        originaldata (state_of (dec data obj n)) = originaldata obj)"

definition leaves_key :: "string \<Rightarrow> string \<Rightarrow> 'v property \<Rightarrow> bool" where
  "leaves_key x n f =
     (\<forall>enc obj data data'. encode_into f = Some enc \<longrightarrow> enc obj data n = Inr data' \<longrightarrow>
        map_of data' x = map_of data x)"

text \<open>
  Modelled from the spec: the plain value-carrying field of \<open>remoteobjects.fields\<close>,
  a module that is not among the sources. Following section 4.1 of the specification,
  \<open>decode_into\<close> reads \<open>document[field_name]\<close> and stores it as the attribute, tolerating
  a missing key; \<open>encode_into\<close> reads the attribute and writes it to
  \<open>document[field_name]\<close>; \<open>install\<close> signals that there is no replacement. It serves
  as the concrete descriptor of the examples only.
\<close>

definition plain_field :: "pyval property" where
  "plain_field =
     \<lparr>is_Field = True, of_cls = None, install = (\<lambda>attrname. None),
      decode_into = Some (\<lambda>data obj field_name.
        Returned (case map_of data field_name of
                    None \<Rightarrow> obj
                  | Some v \<Rightarrow> obj\<lparr>inst_dict := AList.update field_name v (inst_dict obj)\<rparr>)),
      encode_into = Some (\<lambda>obj data field_name.
        Inr (case map_of (inst_dict obj) field_name of
               None \<Rightarrow> data
             | Some v \<Rightarrow> AList.update field_name v data))\<rparr>"

section \<open>The declarations of a class body\<close>

text \<open>
  The two kinds of entries of \<open>attrs\<close>, in the order of \<open>attrs\<close>: the descriptors the
  class declares (what the loop collects in \<open>new_fields\<close>) and the names it binds to
  anything else.
\<close>

fun declared_fields :: "(string \<times> 'v attr) list \<Rightarrow> (string \<times> 'v property) list" where
  "declared_fields [] = []"
| "declared_fields ((k, Property f) # attrs) = (k, f) # declared_fields attrs"
| "declared_fields ((k, Plain v) # attrs) = declared_fields attrs"

fun plain_names :: "(string \<times> 'v attr) list \<Rightarrow> string list" where
  "plain_names [] = []"
| "plain_names ((k, Property f) # attrs) = plain_names attrs"
| "plain_names ((k, Plain v) # attrs) = k # plain_names attrs"

text \<open>
  The decoder of a field-set entry \<open>(n, f)\<close> stores the attribute \<open>n\<close> and no other.
\<close>

definition stores_own_attribute :: "string \<Rightarrow> 'v property \<Rightarrow> bool" where
  "stores_own_attribute n f =
     (\<forall>dec data obj k. decode_into f = Some dec \<longrightarrow> k \<noteq> n \<longrightarrow>
        map_of (inst_dict (state_of (dec data obj n))) k = map_of (inst_dict obj) k)"

text \<open>
  Two states of an instance that differ at most in \<open>_originaldata\<close>; and a decoder that
  ignores the key \<open>x\<close> of the document and \<open>_originaldata\<close>: on documents that agree on
  every other key and on instances that agree on everything else, it does the same.
\<close>

definition same_attributes :: "'v instance \<Rightarrow> 'v instance \<Rightarrow> bool" where
  "same_attributes s s' \<longleftrightarrow> inst_type s = inst_type s' \<and> inst_dict s = inst_dict s'"

fun same_outcome :: "'v instance outcome \<Rightarrow> 'v instance outcome \<Rightarrow> bool" where
  "same_outcome (Returned s) (Returned s') = same_attributes s s'"
| "same_outcome (Raised e s) (Raised e' s') = (e = e' \<and> same_attributes s s')"
| "same_outcome (Returned s) (Raised e' s') = False"
| "same_outcome (Raised e s) (Returned s') = False"

definition ignores_key :: "string \<Rightarrow> string \<Rightarrow> 'v property \<Rightarrow> bool" where
  "ignores_key x n f =
     (\<forall>dec d1 d2 s s'. decode_into f = Some dec \<longrightarrow>
        (\<forall>k. k \<noteq> x \<longrightarrow> map_of d1 k = map_of d2 k) \<longrightarrow> same_attributes s s' \<longrightarrow>
        same_outcome (dec d1 s n) (dec d2 s' n))"

text \<open>
  \<open>getattr\<close> on an instance whose class has no attribute of that name: the entry of
  \<open>__dict__\<close>, or \<open>AttributeError\<close>.
\<close>

definition dict_getattr :: "'v instance \<Rightarrow> string \<Rightarrow> error + 'v" where
  "dict_getattr self k =
     (case map_of (inst_dict self) k of
        None \<Rightarrow> Inl (AttributeError k)
      | Some v \<Rightarrow> Inr v)"

text \<open>
  Two relations between the store before and after a call, for an address \<open>n0\<close>:
  the cells below \<open>n0\<close> are as they were, and the cells from \<open>n0\<close> on refer only to
  cells from \<open>n0\<close> on.
\<close>

definition same_below :: "nat \<Rightarrow> store \<Rightarrow> store \<Rightarrow> bool" where
  "same_below n0 h h' \<longleftrightarrow> length h \<le> length h' \<and> (\<forall>a < n0. h' ! a = h ! a)"

definition fresh_closed :: "nat \<Rightarrow> store \<Rightarrow> bool" where
  "fresh_closed n0 h \<longleftrightarrow>
     (\<forall>a. n0 \<le> a \<and> a < length h \<longrightarrow> (\<forall>b \<in> refs (h ! a). n0 \<le> b \<and> b < length h))"

definition memo_fresh :: "nat \<Rightarrow> store \<Rightarrow> (addr \<times> addr) list \<Rightarrow> bool" where
  "memo_fresh n0 h memo \<longleftrightarrow> (\<forall>(a, y) \<in> set memo. n0 \<le> y \<and> y < length h)"

text \<open>
  What the statements on the store ask of the descriptors. An encoder writes to no
  existing cell but the dictionary it is given, and what it stores there or creates
  refers to no cell older than that dictionary's copy. A decoder changes no existing
  cell (it stores an attribute of the instance) and leaves the attribute
  \<open>_originaldata\<close> alone.
\<close>

definition writes_only_document :: "h_property \<Rightarrow> bool" where
  "writes_only_document f \<longleftrightarrow>
     (\<forall>enc h self doc n. h_encode_into f = Some enc \<longrightarrow>
        length h \<le> length (state_of (enc h self doc n))
        \<and> (\<forall>a < length h. a \<noteq> doc \<longrightarrow> state_of (enc h self doc n) ! a = h ! a))"

definition stores_no_alias :: "h_property \<Rightarrow> bool" where
  "stores_no_alias f \<longleftrightarrow>
     (\<forall>enc h self doc n n0. h_encode_into f = Some enc \<longrightarrow> n0 \<le> doc \<longrightarrow> doc < length h \<longrightarrow>
        fresh_closed n0 h \<longrightarrow> fresh_closed n0 (state_of (enc h self doc n)))"

definition leaves_store :: "h_property \<Rightarrow> bool" where
  "leaves_store f \<longleftrightarrow>
     (\<forall>dec h data self n. h_decode_into f = Some dec \<longrightarrow>
        same_below (length h) h (fst (state_of (dec h data self n)))
        \<and> h_originaldata (snd (state_of (dec h data self n))) = h_originaldata self)"

text \<open>
  The encoder of a field-set entry \<open>(n, f)\<close> adds nothing on the instance \<open>s\<close>: given a
  document with the entries of the instance's original data, it returns a document
  with the same entries (the field has no value to encode, or encodes what the
  original data holds already).
\<close>

definition adds_nothing :: "'v instance \<Rightarrow> string \<Rightarrow> 'v property \<Rightarrow> bool" where
  "adds_nothing s n f =
     (\<forall>enc od doc doc'. encode_into f = Some enc \<longrightarrow> originaldata s = Some od \<longrightarrow>
        map_of doc = map_of od \<longrightarrow> enc s doc n = Inr doc' \<longrightarrow> map_of doc' = map_of od)"

section \<open>Concrete classes and registries\<close>

text \<open>
  A registry with a base class and two subclasses told apart by a constant field
  \<open>kind\<close>, whose values \<open>'a'\<close> and \<open>'b'\<close> are registered as the tuples
  \<open>('a',)\<close> and \<open>('b',)\<close>.
\<close>

definition registry_example :: "unit world" where
  "registry_example =
     \<lparr>next_id = 3,
      classes_by_name =
        [(''Base'', \<lparr>cls_id = 0, cls_name = ''Base'', cls_attrs = [], cls_fields = []\<rparr>),
         (''TypeA'', \<lparr>cls_id = 1, cls_name = ''TypeA'', cls_attrs = [], cls_fields = []\<rparr>),
         (''TypeB'', \<lparr>cls_id = 2, cls_name = ''TypeB'', cls_attrs = [], cls_fields = []\<rparr>)],
      classes_by_constant_field =
        [(''kind'', [([PStr ''a''], ''TypeA''), ([PStr ''b''], ''TypeB'')])]\<rparr>"


definition Asset_cls :: "pyval dataclass" where
  "Asset_cls = \<lparr>cls_id = 1, cls_name = ''Asset'', cls_attrs = [], cls_fields = [(''name'', plain_field)]\<rparr>"

text \<open>
  A descriptor whose \<open>decode_into\<close> and \<open>encode_into\<close> raise, and a class that declares
  it between two plain fields.
\<close>

definition failing_field :: "pyval property" where
  "failing_field =
     \<lparr>is_Field = False, of_cls = None, install = (\<lambda>attrname. None),
      decode_into = Some (\<lambda>data obj field_name. Raised (OtherError ''decode'') obj),
      encode_into = Some (\<lambda>obj data field_name. Inl (OtherError ''encode''))\<rparr>"

definition Broken_cls :: "pyval dataclass" where
  "Broken_cls =
     \<lparr>cls_id = 2, cls_name = ''Broken'', cls_attrs = [],
      cls_fields = [(''a'', plain_field), (''bad'', failing_field), (''c'', plain_field)]\<rparr>"

text \<open>
  A small hierarchy built by the metaclass from empty registries: \<open>Base\<close> declares the
  fields \<open>a\<close> and \<open>b\<close>; \<open>Child(Base)\<close> declares the fields \<open>c\<close> and \<open>a\<close>, in this order;
  \<open>Revoking(Base)\<close> binds \<open>a\<close> to a number.
\<close>

definition world0 :: "pyval world" where
  "world0 = \<lparr>next_id = 0, classes_by_name = [], classes_by_constant_field = []\<rparr>"

definition Base_built :: "pyval dataclass \<times> pyval world" where
  "Base_built =
     DataObjectMetaclass_new world0 ''Base'' [OtherClass]
       [(''a'', Property plain_field), (''b'', Property plain_field)]"

definition Child_built :: "pyval dataclass \<times> pyval world" where
  "Child_built =
     DataObjectMetaclass_new (snd Base_built) ''Child'' [DataObjectClass (fst Base_built)]
       [(''c'', Property plain_field), (''a'', Property plain_field)]"

definition Revoking_built :: "pyval dataclass \<times> pyval world" where
  "Revoking_built =
     DataObjectMetaclass_new (snd Base_built) ''Revoking'' [DataObjectClass (fst Base_built)]
       [(''a'', Plain (PInt 7))]"

text \<open>
  A registry whose constant field \<open>flag\<close> has the value \<open>(1,)\<close> registered, and a
  stand-in for \<open>repr\<close> that is right on strings without quotes or escapes.
\<close>

definition registry_flags :: "unit world" where
  "registry_flags =
     \<lparr>next_id = 2,
      classes_by_name =
        [(''Base'', \<lparr>cls_id = 0, cls_name = ''Base'', cls_attrs = [], cls_fields = []\<rparr>),
         (''Flagged'', \<lparr>cls_id = 1, cls_name = ''Flagged'', cls_attrs = [], cls_fields = []\<rparr>)],
      classes_by_constant_field =
        [(''flag'', [([PInt 0], ''Base''), ([PInt 1], ''Flagged'')])]\<rparr>"

fun repr_example :: "pyval \<Rightarrow> string" where
  "repr_example (PStr s) = [CHR 0x27] @ s @ [CHR 0x27]"
| "repr_example v = ''?''"

text \<open>A class with the plain fields \<open>a\<close> and \<open>b\<close>.\<close>

definition AB_cls :: "pyval dataclass" where
  "AB_cls =
     \<lparr>cls_id = 3, cls_name = ''AB'', cls_attrs = [],
      cls_fields = [(''a'', plain_field), (''b'', plain_field)]\<rparr>"

section \<open>Dictionaries and the two loops over the field set\<close>

text \<open>
  On value trees a deep copy is the value itself; the lemmas on \<open>dict_update\<close> read
  the merged dictionary through \<^const>\<open>map_of\<close>; the two loops run a concatenated
  field set one part after the other.
\<close>

lemma deepcopy_ident: "deepcopy v = v"
  by (induction v) (auto simp: map_idI intro!: map_idI)

lemma deepcopy_dict_ident: "deepcopy_dict d = d"
  by (induction d) (auto simp: deepcopy_dict_def deepcopy_ident)

lemma dict_update_Nil: "dict_update d [] = d"
  by (simp add: dict_update_def)

lemma dict_update_Cons: "dict_update d ((k, v) # e) = dict_update (AList.update k v d) e"
  by (simp add: dict_update_def)

lemma dict_update_append: "dict_update d (e @ e') = dict_update (dict_update d e) e'"
  by (simp add: dict_update_def)

lemma map_of_dict_update:
  "map_of (dict_update d e) k = (case map_of (rev e) k of None \<Rightarrow> map_of d k | Some v \<Rightarrow> Some v)"
proof (induction e arbitrary: d)
  case Nil
  show ?case by (simp add: dict_update_Nil)
next
  case (Cons p e)
  obtain k' v' where p: "p = (k', v')" by (cases p)
  show ?case
    by (simp add: p dict_update_Cons Cons.IH update_conv map_add_def split: option.splits)
qed

lemma map_of_rev_distinct: "distinct (map fst e) \<Longrightarrow> map_of (rev e) = map_of e"
  by (rule map_of_inject_set [THEN iffD2]) (simp_all add: rev_map [symmetric] distinct_rev)

lemma map_of_dict_update_distinct:
  "distinct (map fst e) \<Longrightarrow>
   map_of (dict_update d e) k = (case map_of e k of None \<Rightarrow> map_of d k | Some v \<Rightarrow> Some v)"
  by (simp add: map_of_dict_update map_of_rev_distinct)

lemma originaldata_remember:
  "originaldata (remember self data) =
     Some (dict_update (case originaldata self of None \<Rightarrow> [] | Some od \<Rightarrow> od) data)"
  by (simp add: remember_def deepcopy_dict_ident)

lemma decode_fields_append:
  "decode_fields (fs @ gs) data s =
     (case decode_fields fs data s of
        Raised e s' \<Rightarrow> Raised e s'
      | Returned s' \<Rightarrow> decode_fields gs data s')"
  by (induction fs arbitrary: s) (auto split: option.splits outcome.splits)

lemma encode_fields_append:
  "encode_fields (fs @ gs) self data =
     (case encode_fields fs self data of
        Inl e \<Rightarrow> Inl e
      | Inr data' \<Rightarrow> encode_fields gs self data')"
  by (induction fs arbitrary: data) (auto split: option.splits sum.splits)

lemma decode_fields_originaldata:
  "\<forall>(n, f) \<in> set fs. keeps_originaldata n f \<Longrightarrow>
   originaldata (state_of (decode_fields fs data s)) = originaldata s"
proof (induction fs arbitrary: s)
  case Nil
  show ?case by simp
next
  case (Cons p fs)
  obtain n f where p: "p = (n, f)" by (cases p)
  from Cons.prems have k: "keeps_originaldata n f" and rest: "\<forall>(n, f) \<in> set fs. keeps_originaldata n f"
    by (auto simp: p)
  show ?case
  proof (cases "decode_into f")
    case None
    then show ?thesis using Cons.IH [OF rest] by (simp add: p)
  next
    case (Some dec)
    from k Some have d: "originaldata (state_of (dec data s n)) = originaldata s"
      by (simp add: keeps_originaldata_def)
    show ?thesis
    proof (cases "dec data s n")
      case (Returned s')
      with d Some Cons.IH [OF rest, of s'] show ?thesis by (simp add: p)
    next
      case (Raised e s')
      with d Some show ?thesis by (simp add: p)
    qed
  qed
qed

lemma encode_fields_leaves_key:
  "\<forall>(n, f) \<in> set fs. leaves_key x n f \<Longrightarrow> encode_fields fs self data = Inr out \<Longrightarrow>
   map_of out x = map_of data x"
proof (induction fs arbitrary: data)
  case Nil
  then show ?case by simp
next
  case (Cons p fs)
  obtain n f where p: "p = (n, f)" by (cases p)
  from Cons.prems have k: "leaves_key x n f" and rest: "\<forall>(n, f) \<in> set fs. leaves_key x n f"
    by (auto simp: p)
  show ?case
  proof (cases "encode_into f")
    case None
    then show ?thesis using Cons.IH [OF rest] Cons.prems(2) by (simp add: p)
  next
    case (Some enc)
    with Cons.prems(2) obtain data' where e: "enc self data n = Inr data'"
      and r: "encode_fields fs self data' = Inr out"
      by (auto simp: p split: sum.splits)
    from k Some e have "map_of data' x = map_of data x" by (auto simp: leaves_key_def)
    with Cons.IH [OF rest r] show ?thesis by simp
  qed
qed


lemma plain_field_keeps_originaldata: "keeps_originaldata n plain_field"
  by (simp add: keeps_originaldata_def plain_field_def split: option.splits)

lemma plain_field_leaves_key: "x \<noteq> n \<Longrightarrow> leaves_key x n plain_field"
  by (auto simp: leaves_key_def plain_field_def update_conv split: option.splits)

lemma failing_field_keeps_originaldata: "keeps_originaldata n failing_field"
  by (simp add: keeps_originaldata_def failing_field_def)

section \<open>The field set the metaclass builds\<close>


lemma distinct_dict_update: "distinct (map fst d) \<Longrightarrow> distinct (map fst (dict_update d e))"
proof (induction e arbitrary: d)
  case Nil
  then show ?case by (simp add: dict_update_Nil)
next
  case (Cons p e)
  obtain k v where p: "p = (k, v)" by (cases p)
  show ?case using Cons.IH [OF distinct_update [OF Cons.prems, of k v]]
    by (simp add: p dict_update_Cons)
qed

lemma dict_update_empty_distinct: "distinct (map fst e) \<Longrightarrow> dict_update [] e = e"
proof (induction e rule: rev_induct)
  case Nil
  show ?case by (simp add: dict_update_Nil)
next
  case (snoc p e)
  obtain k v where p: "p = (k, v)" by (cases p)
  from snoc.prems have d: "distinct (map fst e)" and k: "k \<notin> set (map fst e)"
    by (simp_all add: p)
  have "AList.update k v e = e @ [(k, v)]"
    using k by (induction e) auto
  with snoc.IH [OF d] show ?case
    by (simp add: p dict_update_append dict_update_Cons dict_update_Nil)
qed

lemma keys_declared_fields: "set (map fst (declared_fields attrs)) \<subseteq> set (map fst attrs)"
  by (induction attrs rule: declared_fields.induct) auto

lemma keys_plain_names: "set (plain_names attrs) \<subseteq> set (map fst attrs)"
  by (induction attrs rule: plain_names.induct) auto

lemma distinct_declared_fields:
  "distinct (map fst attrs) \<Longrightarrow> distinct (map fst (declared_fields attrs))"
proof (induction attrs rule: declared_fields.induct)
  case 1
  show ?case by simp
next
  case (2 k f attrs)
  then show ?case using keys_declared_fields [of attrs] by auto
next
  case (3 k v attrs)
  then show ?case by simp
qed

lemma declared_plain_disjoint:
  "distinct (map fst attrs) \<Longrightarrow> set (map fst (declared_fields attrs)) \<inter> set (plain_names attrs) = {}"
proof (induction attrs rule: declared_fields.induct)
  case 1
  show ?case by simp
next
  case (2 k f attrs)
  then show ?case using keys_plain_names [of attrs] by auto
next
  case (3 k v attrs)
  then show ?case using keys_declared_fields [of attrs] by auto
qed

lemma map_of_declared_fields:
  "distinct (map fst attrs) \<Longrightarrow>
   map_of (declared_fields attrs) k =
     (case map_of attrs k of Some (Property f) \<Rightarrow> Some f | _ \<Rightarrow> None)"
proof (induction attrs rule: declared_fields.induct)
  case 1
  show ?case by simp
next
  case (2 k' f attrs)
  then show ?case by simp
next
  case (3 k' v attrs)
  then have "k' \<notin> set (map fst (declared_fields attrs))"
    using keys_declared_fields [of attrs] by auto
  then have "map_of (declared_fields attrs) k' = None"
    by (simp add: map_of_eq_None_iff)
  with 3 show ?case by auto
qed

lemma plain_names_iff:
  "k \<in> set (plain_names attrs) \<longleftrightarrow> (\<exists>v. (k, Plain v) \<in> set attrs)"
  by (induction attrs rule: plain_names.induct) auto

lemma delete_filter: "AList.delete k al = filter (\<lambda>p. fst p \<noteq> k) al"
  by (induction al) auto

lemma collect_attr_fold:
  "foldl collect_attr (flds, nf, at) xs =
     (filter (\<lambda>p. fst p \<notin> set (plain_names xs)) flds,
      dict_update nf (declared_fields xs),
      snd (snd (foldl collect_attr (flds, nf, at) xs)))"
proof (induction xs arbitrary: flds nf at rule: declared_fields.induct)
  case 1
  show ?case by (simp add: dict_update_Nil)
next
  case (2 k f attrs)
  show ?case
  proof (cases "install f k")
    case None
    then show ?thesis
      using 2 [of flds "AList.update k f nf" "AList.delete k at"]
      by (simp add: dict_update_Cons)
  next
    case (Some repl)
    then show ?thesis
      using 2 [of flds "AList.update k f nf" "AList.update k (Plain repl) at"]
      by (simp add: dict_update_Cons)
  qed
next
  case (3 k v attrs)
  have f: "filter (\<lambda>p. fst p \<notin> set (plain_names attrs)) (AList.delete k flds)
         = filter (\<lambda>p. fst p \<notin> set (plain_names ((k, Plain v) # attrs))) flds"
    by (simp add: delete_filter conj_commute)
  have g: "k \<notin> set (map fst flds) \<Longrightarrow>
           filter (\<lambda>p. fst p \<notin> set (plain_names attrs)) flds
         = filter (\<lambda>p. fst p \<notin> set (plain_names ((k, Plain v) # attrs))) flds"
    by (intro filter_cong) auto
  show ?case
  proof (cases "k \<in> set (map fst flds)")
    case True
    then show ?thesis using 3 [of "AList.delete k flds" nf at] f by simp
  next
    case False
    then show ?thesis using 3 [of flds nf at] g by simp
  qed
qed

lemma cls_fields_new:
  "cls_fields (fst (DataObjectMetaclass_new w name bases attrs)) =
     dict_update (filter (\<lambda>p. fst p \<notin> set (plain_names attrs)) (inherit_fields bases))
       (map (\<lambda>(k, f). (k, f\<lparr>of_cls := Some (next_id w)\<rparr>)) (dict_update [] (declared_fields attrs)))"
  apply (simp add: DataObjectMetaclass_new_def)
  apply (subst collect_attr_fold)
  apply (simp add: Let_def)
  done


lemma cls_fields_new_distinct:
  assumes "distinct (map fst attrs)"
  shows "cls_fields (fst (DataObjectMetaclass_new w name bases attrs)) =
     dict_update (filter (\<lambda>p. fst p \<notin> set (plain_names attrs)) (inherit_fields bases))
       (map (\<lambda>(k, f). (k, f\<lparr>of_cls := Some (next_id w)\<rparr>)) (declared_fields attrs))"
  by (simp only: cls_fields_new dict_update_empty_distinct [OF distinct_declared_fields [OF assms]])

lemma keys_set_dict_update:
  "set (map fst (dict_update d e)) = set (map fst d) \<union> set (map fst e)"
proof (induction e arbitrary: d)
  case Nil
  show ?case by (simp add: dict_update_Nil)
next
  case (Cons p e)
  obtain k v where p: "p = (k, v)" by (cases p)
  show ?case using Cons.IH [of "AList.update k v d"]
    by (auto simp: p dict_update_Cons update_keys)
qed

lemma map_of_filter_keys:
  "map_of (filter (\<lambda>p. fst p \<notin> A) xs) k = (if k \<notin> A then map_of xs k else None)"
  by (induction xs) auto

lemma keys_filter_keys:
  "map fst (filter (\<lambda>p. fst p \<notin> A) xs) = filter (\<lambda>k. k \<notin> A) (map fst xs)"
  by (induction xs) auto

lemma keys_installed: "map fst (map (\<lambda>(k, f). (k, g f)) xs) = map fst xs"
  by (induction xs) auto

lemma map_of_installed: "map_of (map (\<lambda>(k, f). (k, g f)) xs) k = map_option g (map_of xs k)"
  by (induction xs) auto

lemma map_of_plain:
  "distinct (map fst attrs) \<Longrightarrow>
   k \<in> set (plain_names attrs) \<longleftrightarrow> (\<exists>v. map_of attrs k = Some (Plain v))"
  by (auto simp: plain_names_iff)

lemma decode_fields_other_attribute:
  "\<forall>(n, f) \<in> set fs. n \<noteq> a \<and> stores_own_attribute n f \<Longrightarrow>
   map_of (inst_dict (state_of (decode_fields fs data s))) a = map_of (inst_dict s) a"
proof (induction fs arbitrary: s)
  case Nil
  show ?case by simp
next
  case (Cons p fs)
  obtain n f where p: "p = (n, f)" by (cases p)
  from Cons.prems have na: "a \<noteq> n" and own: "stores_own_attribute n f"
    and rest: "\<forall>(n, f) \<in> set fs. n \<noteq> a \<and> stores_own_attribute n f"
    by (auto simp: p)
  show ?case
  proof (cases "decode_into f")
    case None
    then show ?thesis using Cons.IH [OF rest] by (simp add: p)
  next
    case (Some dec)
    from own Some na have d: "map_of (inst_dict (state_of (dec data s n))) a = map_of (inst_dict s) a"
      by (simp add: stores_own_attribute_def)
    show ?thesis
    proof (cases "dec data s n")
      case (Returned s')
      with d Some Cons.IH [OF rest, of s'] show ?thesis by (simp add: p)
    next
      case (Raised e s')
      with d Some show ?thesis by (simp add: p)
    qed
  qed
qed

lemma inherit_fields_snoc:
  "inherit_fields (bases @ [base]) =
     (case base of
        DataObjectClass b \<Rightarrow> dict_update (inherit_fields bases) (cls_fields b)
      | OtherClass \<Rightarrow> inherit_fields bases)"
  by (cases base) (simp_all add: inherit_fields_def)

lemma Base_built_fields:
  "cls_fields (fst Base_built)
     = [(''a'', plain_field\<lparr>of_cls := Some 0\<rparr>), (''b'', plain_field\<lparr>of_cls := Some 0\<rparr>)]"
  by (simp add: Base_built_def world0_def DataObjectMetaclass_new_def inherit_fields_def
        dict_update_def plain_field_def Let_def)

lemma Child_built_fields:
  "cls_fields (fst Child_built)
     = [(''a'', plain_field\<lparr>of_cls := Some 1\<rparr>), (''b'', plain_field\<lparr>of_cls := Some 0\<rparr>),
        (''c'', plain_field\<lparr>of_cls := Some 1\<rparr>)]"
  by (simp add: Child_built_def Base_built_def world0_def DataObjectMetaclass_new_def
        inherit_fields_def dict_update_def plain_field_def Let_def)

lemma Base_built_next_id: "next_id (snd Base_built) = 1"
  by (simp add: Base_built_def world0_def DataObjectMetaclass_new_def Let_def split: prod.splits)

lemma inherit_Base_built:
  "inherit_fields [DataObjectClass (fst Base_built)]
     = [(''a'', plain_field\<lparr>of_cls := Some 0\<rparr>), (''b'', plain_field\<lparr>of_cls := Some 0\<rparr>)]"
  by (simp add: inherit_fields_def dict_update_def Base_built_fields)


text \<open>The comparison loop, and decoders that ignore a key.\<close>

lemma eq_fields_True:
  "eq_fields getattr ne fs x y = Inr True \<longleftrightarrow>
     (\<forall>(k, f) \<in> set fs. is_Field f \<longrightarrow>
        (\<exists>a b. getattr x k = Inr a \<and> getattr y k = Inr b \<and> \<not> ne a b))"
proof (induction fs)
  case Nil
  show ?case by simp
next
  case (Cons p fs)
  obtain k f where p: "p = (k, f)" by (cases p)
  show ?case
  proof (cases "is_Field f")
    case False
    then show ?thesis using Cons.IH by (simp add: p)
  next
    case True
    show ?thesis
    proof (cases "getattr x k")
      case (Inl e)
      with True show ?thesis by (simp add: p)
    next
      case a: (Inr a)
      show ?thesis
      proof (cases "getattr y k")
        case (Inl e)
        with True a show ?thesis by (simp add: p)
      next
        case b: (Inr b)
        show ?thesis
        proof (cases "ne a b")
          case True
          with \<open>is_Field f\<close> a b show ?thesis by (simp add: p)
        next
          case False
          with \<open>is_Field f\<close> a b Cons.IH show ?thesis by (simp add: p)
        qed
      qed
    qed
  qed
qed

lemma eq_fields_cong:
  "\<forall>(k, f) \<in> set fs. is_Field f \<longrightarrow> getattr x' k = getattr x k \<and> getattr y' k = getattr y k \<Longrightarrow>
   eq_fields getattr ne fs x' y' = eq_fields getattr ne fs x y"
proof (induction fs)
  case Nil
  show ?case by simp
next
  case (Cons p fs)
  obtain k f where p: "p = (k, f)" by (cases p)
  from Cons.prems have here: "is_Field f \<Longrightarrow> getattr x' k = getattr x k \<and> getattr y' k = getattr y k"
    and rest: "\<forall>(k, f) \<in> set fs. is_Field f \<longrightarrow> getattr x' k = getattr x k \<and> getattr y' k = getattr y k"
    by (auto simp: p)
  show ?case
  proof (cases "is_Field f")
    case False
    then show ?thesis using Cons.IH [OF rest] by (simp add: p)
  next
    case True
    with here Cons.IH [OF rest] show ?thesis by (simp add: p split: sum.splits)
  qed
qed

lemma same_attributes_refl: "same_attributes s s"
  by (simp add: same_attributes_def)

lemma same_attributes_remember:
  "same_attributes s s' \<Longrightarrow> same_attributes (remember s d1) (remember s' d2)"
  by (simp add: same_attributes_def remember_def)

lemma decode_fields_ignores_key:
  assumes "\<forall>k. k \<noteq> x \<longrightarrow> map_of d1 k = map_of d2 k"
  shows "\<forall>(n, f) \<in> set fs. ignores_key x n f \<Longrightarrow> same_attributes s s' \<Longrightarrow>
         same_outcome (decode_fields fs d1 s) (decode_fields fs d2 s')"
proof (induction fs arbitrary: s s')
  case Nil
  then show ?case by simp
next
  case (Cons p fs)
  obtain n f where p: "p = (n, f)" by (cases p)
  from Cons.prems have ign: "ignores_key x n f" and rest: "\<forall>(n, f) \<in> set fs. ignores_key x n f"
    by (auto simp: p)
  show ?case
  proof (cases "decode_into f")
    case None
    then show ?thesis using Cons.IH [OF rest Cons.prems(2)] by (simp add: p)
  next
    case (Some dec)
    from ign Some assms Cons.prems(2) have so: "same_outcome (dec d1 s n) (dec d2 s' n)"
      unfolding ignores_key_def by blast
    show ?thesis
    proof (cases "dec d1 s n")
      case (Returned t)
      with so obtain t' where t': "dec d2 s' n = Returned t'" and st: "same_attributes t t'"
        by (cases "dec d2 s' n") auto
      with Returned Some Cons.IH [OF rest st] show ?thesis by (simp add: p)
    next
      case (Raised e t)
      with so obtain t' where "dec d2 s' n = Raised e t'" and "same_attributes t t'"
        by (cases "dec d2 s' n") auto
      with Raised Some show ?thesis by (simp add: p)
    qed
  qed
qed

lemma plain_field_ignores_key: "x \<noteq> n \<Longrightarrow> ignores_key x n plain_field"
  by (auto simp: ignores_key_def plain_field_def same_attributes_def split: option.splits)

lemma dict_getattr_same_attributes: "same_attributes s s' \<Longrightarrow> dict_getattr s k = dict_getattr s' k"
  by (simp add: same_attributes_def dict_getattr_def)

text \<open>
  The lookup of a tuple among the keys of a dictionary, read entry by entry and member
  by member.
\<close>

lemma atom_eq_hashable:
  "hashable b \<Longrightarrow>
   atom_eq a b \<longleftrightarrow>
     a = b \<or> (\<exists>x. a = PBool x \<and> b = PInt (if x then 1 else 0))
           \<or> (\<exists>x. a = PInt (if x then 1 else 0) \<and> b = PBool x)"
  by (cases a; cases b) auto

lemma tuple_lookup_None_iff:
  "tuple_lookup kvs t = None \<longleftrightarrow> (\<forall>(k, c) \<in> set kvs. \<not> list_all2 atom_eq k t)"
  by (induction kvs) (auto split: if_splits)

lemma tuple_lookup_SomeD:
  "tuple_lookup kvs t = Some c \<Longrightarrow> \<exists>k. (k, c) \<in> set kvs \<and> list_all2 atom_eq k t"
  by (induction kvs) (auto split: if_splits)

lemma list_all2_atom_eq:
  assumes "list_all hashable t"
  shows "list_all2 atom_eq k t \<longleftrightarrow>
           length k = length t
           \<and> (\<forall>i < length t.
                  k ! i = t ! i
                  \<or> (\<exists>x. k ! i = PBool x \<and> t ! i = PInt (if x then 1 else 0))
                  \<or> (\<exists>x. k ! i = PInt (if x then 1 else 0) \<and> t ! i = PBool x))"
proof -
  have h: "\<And>i. i < length t \<Longrightarrow>
             atom_eq (k ! i) (t ! i) \<longleftrightarrow>
               k ! i = t ! i
               \<or> (\<exists>x. k ! i = PBool x \<and> t ! i = PInt (if x then 1 else 0))
               \<or> (\<exists>x. k ! i = PInt (if x then 1 else 0) \<and> t ! i = PBool x)"
  proof -
    fix i assume "i < length t"
    with assms have "hashable (t ! i)" by (simp add: list_all_length)
    then show "atom_eq (k ! i) (t ! i) \<longleftrightarrow>
               k ! i = t ! i
               \<or> (\<exists>x. k ! i = PBool x \<and> t ! i = PInt (if x then 1 else 0))
               \<or> (\<exists>x. k ! i = PInt (if x then 1 else 0) \<and> t ! i = PBool x)"
      by (rule atom_eq_hashable)
  qed
  show ?thesis
  proof
    assume "list_all2 atom_eq k t"
    then have len: "length k = length t" and all: "\<And>i. i < length t \<Longrightarrow> atom_eq (k ! i) (t ! i)"
      by (simp_all add: list_all2_conv_all_nth)
    show "length k = length t
           \<and> (\<forall>i < length t.
                  k ! i = t ! i
                  \<or> (\<exists>x. k ! i = PBool x \<and> t ! i = PInt (if x then 1 else 0))
                  \<or> (\<exists>x. k ! i = PInt (if x then 1 else 0) \<and> t ! i = PBool x))"
    proof (intro conjI allI impI)
      show "length k = length t" by (rule len)
    next
      fix i assume i: "i < length t"
      from all [OF i] show "k ! i = t ! i
                  \<or> (\<exists>x. k ! i = PBool x \<and> t ! i = PInt (if x then 1 else 0))
                  \<or> (\<exists>x. k ! i = PInt (if x then 1 else 0) \<and> t ! i = PBool x)"
        by (simp only: h [OF i])
    qed
  next
    assume r: "length k = length t
           \<and> (\<forall>i < length t.
                  k ! i = t ! i
                  \<or> (\<exists>x. k ! i = PBool x \<and> t ! i = PInt (if x then 1 else 0))
                  \<or> (\<exists>x. k ! i = PInt (if x then 1 else 0) \<and> t ! i = PBool x))"
    show "list_all2 atom_eq k t"
      unfolding list_all2_conv_all_nth
    proof (intro conjI allI impI)
      show "length k = length t" using r by (rule conjunct1)
    next
      fix i assume "i < length k"
      with r have i: "i < length t" by simp
      from r i have "k ! i = t ! i
                  \<or> (\<exists>x. k ! i = PBool x \<and> t ! i = PInt (if x then 1 else 0))
                  \<or> (\<exists>x. k ! i = PInt (if x then 1 else 0) \<and> t ! i = PBool x)"
        by blast
      then show "atom_eq (k ! i) (t ! i)" by (simp only: h [OF i])
    qed
  qed
qed

section \<open>Deep copies in the store\<close>

text \<open>
  A deep copy started at a store of \<open>n0\<close> cells writes only to cells it creates, and
  the cells it creates refer only to cells it creates.
\<close>

lemma values_update: "set (map snd (AList.update k v kvs)) \<subseteq> insert v (set (map snd kvs))"
  by (induction kvs) auto

lemma length_store_member [simp]: "length (store_member h y s v) = length h"
  by (cases s) simp_all

lemma store_member_other: "a \<noteq> y \<Longrightarrow> store_member h y s v ! a = h ! a"
  by (cases s) simp_all

lemma refs_store_member:
  "y < length h \<Longrightarrow> refs (store_member h y s v ! y) \<subseteq> refs (h ! y) \<union> {b. v = HRef b}"
proof (cases s)
  case Append
  assume "y < length h"
  then show ?thesis using Append by (cases "h ! y") (auto simp: refs_def)
next
  case (Key k)
  assume "y < length h"
  then show ?thesis using Key values_update [of k v]
    by (cases "h ! y") (auto simp: refs_def)
qed

lemma refs_empty_like [simp]: "refs (empty_like obj) = {}"
  by (cases obj) (simp_all add: refs_def)

lemma same_below_refl: "same_below n0 h h"
  by (simp add: same_below_def)

lemma same_below_trans: "same_below n0 h h' \<Longrightarrow> same_below n0 h' h'' \<Longrightarrow> same_below n0 h h''"
  by (auto simp: same_below_def)

lemma same_below_store_member: "n0 \<le> y \<Longrightarrow> same_below n0 h (store_member h y s v)"
  by (simp add: same_below_def store_member_other)

lemma same_below_alloc: "n0 \<le> length h \<Longrightarrow> same_below n0 h (h @ [obj])"
  by (simp add: same_below_def nth_append)

lemma fresh_closedD:
  "fresh_closed n0 h \<Longrightarrow> n0 \<le> a \<Longrightarrow> a < length h \<Longrightarrow> b \<in> refs (h ! a) \<Longrightarrow> n0 \<le> b \<and> b < length h"
  unfolding fresh_closed_def by blast

lemma fresh_closed_alloc:
  assumes "fresh_closed n0 h" and "refs obj = {}"
  shows "fresh_closed n0 (h @ [obj])"
  unfolding fresh_closed_def
proof (intro allI impI ballI)
  fix a b
  assume a: "n0 \<le> a \<and> a < length (h @ [obj])" and b: "b \<in> refs ((h @ [obj]) ! a)"
  show "n0 \<le> b \<and> b < length (h @ [obj])"
  proof (cases "a < length h")
    case True
    with b have "b \<in> refs (h ! a)" by (simp add: nth_append)
    with fresh_closedD [OF assms(1) _ True] a have "n0 \<le> b \<and> b < length h" by blast
    then show ?thesis by simp
  next
    case False
    with a have "a = length h" by simp
    with b assms(2) show ?thesis by simp
  qed
qed

lemma fresh_closed_store_member:
  assumes "fresh_closed n0 h" and "n0 \<le> y" and "y < length h"
    and "\<And>b. v = HRef b \<Longrightarrow> n0 \<le> b \<and> b < length h"
  shows "fresh_closed n0 (store_member h y s v)"
  unfolding fresh_closed_def
proof (intro allI impI ballI)
  fix a b
  assume a: "n0 \<le> a \<and> a < length (store_member h y s v)"
    and b: "b \<in> refs (store_member h y s v ! a)"
  have goal: "n0 \<le> b \<and> b < length h"
  proof (cases "a = y")
    case True
    with b refs_store_member [OF assms(3), of s v] have "b \<in> refs (h ! y) \<or> v = HRef b" by auto
    then show ?thesis
    proof
      assume "b \<in> refs (h ! y)"
      then show ?thesis by (rule fresh_closedD [OF assms(1,2,3)])
    next
      assume "v = HRef b"
      then show ?thesis by (rule assms(4))
    qed
  next
    case False
    with b have "b \<in> refs (h ! a)" by (simp add: store_member_other)
    moreover from a have "n0 \<le> a" and "a < length h" by simp_all
    ultimately show ?thesis using fresh_closedD [OF assms(1)] by blast
  qed
  then show "n0 \<le> b \<and> b < length (store_member h y s v)" by simp
qed

lemma memo_fresh_mono: "memo_fresh n0 h memo \<Longrightarrow> length h \<le> length h' \<Longrightarrow> memo_fresh n0 h' memo"
  unfolding memo_fresh_def by (metis (mono_tags, lifting) case_prodE case_prodI2 old.prod.case order_less_le_trans)

lemma memo_fresh_lookup: "memo_fresh n0 h memo \<Longrightarrow> map_of memo a = Some y \<Longrightarrow> n0 \<le> y \<and> y < length h"
  by (auto simp: memo_fresh_def dest!: map_of_SomeD)

lemma h_deepcopy_invariant:
  shows "h_deepcopy n h memo v = Some (h', memo', v') \<Longrightarrow> n0 \<le> length h \<Longrightarrow>
         memo_fresh n0 h memo \<Longrightarrow> fresh_closed n0 h \<Longrightarrow>
         same_below n0 h h' \<and> memo_fresh n0 h' memo' \<and> fresh_closed n0 h'
         \<and> (\<forall>b. v' = HRef b \<longrightarrow> n0 \<le> b \<and> b < length h')"
    and "h_deepcopy_members n h memo y items = Some (h', memo') \<Longrightarrow> n0 \<le> y \<Longrightarrow> y < length h \<Longrightarrow>
         memo_fresh n0 h memo \<Longrightarrow> fresh_closed n0 h \<Longrightarrow>
         same_below n0 h h' \<and> memo_fresh n0 h' memo' \<and> fresh_closed n0 h'"
proof (induction n h memo v and n h memo y items arbitrary: h' memo' v' and h' memo'
       rule: h_deepcopy_h_deepcopy_members.induct)
  case (1 n h memo)
  then show ?case by (auto simp: same_below_refl)
next
  case (2 n h memo b)
  then show ?case by (auto simp: same_below_refl)
next
  case (3 n h memo i)
  then show ?case by (auto simp: same_below_refl)
next
  case (4 n h memo s)
  then show ?case by (auto simp: same_below_refl)
next
  case (5 h memo a)
  then show ?case
    by (auto simp: same_below_refl split: option.splits dest: memo_fresh_lookup)
next
  case (6 n h memo a)
  show ?case
  proof (cases "map_of memo a")
    case (Some y)
    with "6.prems" show ?thesis
      by (auto simp: same_below_refl dest: memo_fresh_lookup)
  next
    case None
    with "6.prems"(1) have a: "\<not> length h \<le> a"
      and run: "h_deepcopy_members n (h @ [empty_like (h ! a)]) ((a, length h) # memo)
                  (length h) (slots (h ! a)) = Some (h', memo')"
      and v': "v' = HRef (length h)"
      by (auto split: if_splits option.splits)
    let ?h1 = "h @ [empty_like (h ! a)]"
    have m1: "memo_fresh n0 ?h1 ((a, length h) # memo)"
      using "6.prems"(2) memo_fresh_mono [OF "6.prems"(3), of ?h1]
      by (simp add: memo_fresh_def)
    have f1: "fresh_closed n0 ?h1"
      by (rule fresh_closed_alloc [OF "6.prems"(4)]) simp
    from "6.IH" [OF None a run "6.prems"(2) _ m1 f1]
    have post: "same_below n0 ?h1 h' \<and> memo_fresh n0 h' memo' \<and> fresh_closed n0 h'"
      by simp
    then have "same_below n0 h h'"
      using same_below_trans [OF same_below_alloc [OF "6.prems"(2)]] by blast
    moreover have "length h < length h'"
      using post by (simp add: same_below_def)
    ultimately show ?thesis using post v' "6.prems"(2) by simp
  qed
next
  case (7 n h memo y)
  then show ?case by (simp add: same_below_refl)
next
  case (8 n h memo y s x rest)
  from "8.prems"(1) obtain h1 memo1 v where
    first: "h_deepcopy n h memo x = Some (h1, memo1, v)"
    and rest: "h_deepcopy_members n (store_member h1 y s v) memo1 y rest = Some (h', memo')"
    by (auto split: option.splits)
  from "8.IH"(1) [OF first _ "8.prems"(4,5)] "8.prems"(2,3)
  have p1: "same_below n0 h h1" and m1: "memo_fresh n0 h1 memo1" and f1: "fresh_closed n0 h1"
    and v: "\<And>b. v = HRef b \<Longrightarrow> n0 \<le> b \<and> b < length h1"
    by auto
  have y1: "y < length h1" using p1 "8.prems"(3) by (simp add: same_below_def)
  let ?h2 = "store_member h1 y s v"
  have p2: "same_below n0 h1 ?h2" by (rule same_below_store_member [OF "8.prems"(2)])
  have m2: "memo_fresh n0 ?h2 memo1" using m1 by (simp add: memo_fresh_def)
  have f2: "fresh_closed n0 ?h2"
    by (rule fresh_closed_store_member [OF f1 "8.prems"(2) y1 v])
  from "8.IH"(2) [OF first refl refl rest "8.prems"(2) _ m2 f2] y1
  have "same_below n0 ?h2 h' \<and> memo_fresh n0 h' memo' \<and> fresh_closed n0 h'"
    by simp
  then show ?case using same_below_trans [OF same_below_trans [OF p1 p2]] by blast
qed

text \<open>
  Reachability: it stays inside any set of cells that is closed under references, and
  it is the same in two stores that agree on the cells reached.
\<close>

lemma reach_less: "reach h a b \<Longrightarrow> b < length h"
  by (induction rule: reach.induct) simp_all

lemma reach_region:
  assumes "reach h a c" and "a \<in> S"
    and "\<And>b c. b \<in> S \<Longrightarrow> b < length h \<Longrightarrow> c \<in> refs (h ! b) \<Longrightarrow> c < length h \<Longrightarrow> c \<in> S"
  shows "c \<in> S"
  using assms(1)
proof (induction rule: reach.induct)
  case start
  show ?case by (rule assms(2))
next
  case (step b c)
  from assms(3) [OF step.IH reach_less [OF step.hyps(1)] step.hyps(2,3)] show ?case .
qed

lemma reach_fresh:
  assumes "fresh_closed n0 h" and "n0 \<le> a" and "reach h a b"
  shows "n0 \<le> b"
proof -
  have "b \<in> {b. n0 \<le> b}"
  proof (rule reach_region [OF assms(3)])
    show "a \<in> {b. n0 \<le> b}" using assms(2) by simp
  next
    fix b c
    assume "b \<in> {b. n0 \<le> b}" and "b < length h" and "c \<in> refs (h ! b)" and "c < length h"
    then show "c \<in> {b. n0 \<le> b}" using fresh_closedD [OF assms(1), of b c] by simp
  qed
  then show ?thesis by simp
qed

lemma reach_transfer:
  assumes "reach h a c" and "length h \<le> length h'"
    and "\<And>b. reach h a b \<Longrightarrow> h' ! b = h ! b"
  shows "reach h' a c"
  using assms(1)
proof (induction rule: reach.induct)
  case start
  then show ?case using assms(2) by (intro reach.start) simp
next
  case (step b c)
  from assms(3) [OF step.hyps(1)] step.hyps(2) have "c \<in> refs (h' ! b)" by simp
  moreover have "c < length h'" using step.hyps(3) assms(2) by simp
  ultimately show ?case using step.IH by (rule reach.step [rotated])
qed

lemma closedD: "closed h \<Longrightarrow> a < length h \<Longrightarrow> b \<in> refs (h ! a) \<Longrightarrow> b < length h"
  unfolding closed_def by blast

lemma reach_transfer_back:
  assumes "reach h' a c" and "a < length h"
    and "\<And>b. reach h a b \<Longrightarrow> h' ! b = h ! b"
    and "\<And>b c. reach h a b \<Longrightarrow> c \<in> refs (h ! b) \<Longrightarrow> c < length h"
  shows "reach h a c"
  using assms(1)
proof (induction rule: reach.induct)
  case start
  show ?case by (rule reach.start [OF assms(2)])
next
  case (step b c)
  from assms(3) [OF step.IH] step.hyps(2) have c: "c \<in> refs (h ! b)" by simp
  from assms(4) [OF step.IH c] have "c < length h" .
  with step.IH c show ?case by (rule reach.step)
qed

lemma reach_same_cells:
  assumes "closed h" and "a < length h" and "length h \<le> length h'"
    and "\<And>b. reach h a b \<Longrightarrow> h' ! b = h ! b"
  shows "reach h' a c \<longleftrightarrow> reach h a c"
proof
  assume "reach h' a c"
  then show "reach h a c"
  proof (rule reach_transfer_back [OF _ assms(2)])
    fix b assume "reach h a b" then show "h' ! b = h ! b" by (rule assms(4))
  next
    fix b c assume "reach h a b" and "c \<in> refs (h ! b)"
    then show "c < length h" using closedD [OF assms(1) reach_less] by blast
  qed
next
  assume "reach h a c"
  then show "reach h' a c" by (rule reach_transfer [OF _ assms(3,4)])
qed

lemma reach_update_outside:
  assumes "\<not> reach h a x"
  shows "reach (h[x := obj]) a c \<longleftrightarrow> reach h a c"
proof
  assume "reach (h[x := obj]) a c"
  then show "reach h a c"
  proof (induction rule: reach.induct)
    case start
    then show ?case by (intro reach.start) simp
  next
    case (step b c)
    from step.IH assms have "b \<noteq> x" by auto
    with step.hyps(2) have "c \<in> refs (h ! b)" by simp
    with step.IH show ?case using step.hyps(3) by (intro reach.step [of h a b c]) simp_all
  qed
next
  assume "reach h a c"
  then show "reach (h[x := obj]) a c"
  proof (induction rule: reach.induct)
    case start
    then show ?case by (intro reach.start) simp
  next
    case (step b c)
    from step.hyps(1) assms have "b \<noteq> x" by auto
    with step.hyps(2) have "c \<in> refs (h[x := obj] ! b)" by simp
    with step.IH show ?case using step.hyps(3) by (intro reach.step [of _ a b c]) simp_all
  qed
qed

section \<open>Discriminator dispatch\<close>

text \<open>
  Claim C6. Let \<open>t\<close> be the tuple of \<open>value\<close>: the members of a list, the characters
  of a string or the keys of a dictionary, none of them a list or a dictionary. A key
  \<open>k\<close> of a dictionary is \<open>t\<close> when both have the same length and each member of \<open>k\<close>
  equals the member of \<open>t\<close> at its place, \<open>True\<close> and \<open>False\<close> being equal to 1 and 0.
  Hit: when \<open>classes_by_constant_field[fieldname]\<close> has an entry whose key is \<open>t\<close>,
  wherever it stands, and every such entry names the class \<open>clsname\<close>, the call returns
  \<open>classes_by_name[clsname]\<close> (the \<open>KeyError\<close> of \<open>find_by_name\<close> when there is none).
  Miss: when the field name is not a key of \<open>classes_by_constant_field\<close>, or no key of
  \<open>classes_by_constant_field[fieldname]\<close> is \<open>t\<close>, the call raises the \<open>ValueError\<close>
  whose message names the requesting class, the field name and the value.
\<close>

theorem C6_discriminator_dispatch:
  assumes "value = PList t
           \<or> (\<exists>s. value = PStr s \<and> t = map (\<lambda>c. PStr [c]) s)
           \<or> (\<exists>kvs. value = PDict kvs \<and> t = map (\<lambda>kv. PStr (fst kv)) kvs)"
    and "\<forall>v \<in> set t. (\<forall>xs. v \<noteq> PList xs) \<and> (\<forall>kvs. v \<noteq> PDict kvs)"
  shows "(\<forall>by_value k clsname.
            map_of (classes_by_constant_field w) fieldname = Some by_value
            \<longrightarrow> (k, clsname) \<in> set by_value
            \<longrightarrow> length k = length t
            \<longrightarrow> (\<forall>i < length t.
                   k ! i = t ! i
                   \<or> (\<exists>x. k ! i = PBool x \<and> t ! i = PInt (if x then 1 else 0))
                   \<or> (\<exists>x. k ! i = PInt (if x then 1 else 0) \<and> t ! i = PBool x))
            \<longrightarrow> (\<forall>(k', c') \<in> set by_value.
                   length k' = length t
                   \<and> (\<forall>i < length t.
                          k' ! i = t ! i
                          \<or> (\<exists>x. k' ! i = PBool x \<and> t ! i = PInt (if x then 1 else 0))
                          \<or> (\<exists>x. k' ! i = PInt (if x then 1 else 0) \<and> t ! i = PBool x))
                   \<longrightarrow> c' = clsname)
            \<longrightarrow> subclass_with_constant_field repr w cls fieldname value
                  = (case map_of (classes_by_name w) clsname of
                       None \<Rightarrow> Inl (KeyError clsname)
                     | Some c \<Rightarrow> Inr c))
       \<and> (map_of (classes_by_constant_field w) fieldname = None
            \<or> (\<exists>by_value.
                  map_of (classes_by_constant_field w) fieldname = Some by_value
                  \<and> (\<forall>(k, c) \<in> set by_value.
                         \<not> (length k = length t
                            \<and> (\<forall>i < length t.
                                   k ! i = t ! i
                                   \<or> (\<exists>x. k ! i = PBool x \<and> t ! i = PInt (if x then 1 else 0))
                                   \<or> (\<exists>x. k ! i = PInt (if x then 1 else 0) \<and> t ! i = PBool x)))))
           \<longrightarrow> subclass_with_constant_field repr w cls fieldname value
                 = Inl (ValueError (''No such subclass of '' @ cls_name cls @ '' with field ''
                                      @ repr (PStr fieldname) @ '' equivalent to '' @ repr value)))"
proof -
  have tup: "py_tuple value = Inr t" using assms(1) by auto
  have hash: "list_all hashable t"
    unfolding list_all_iff
  proof
    fix v assume "v \<in> set t"
    with assms(2) show "hashable v" by (cases v) auto
  qed
  note same = list_all2_atom_eq [OF hash]
  let ?msg = "''No such subclass of '' @ cls_name cls @ '' with field ''
                @ repr (PStr fieldname) @ '' equivalent to '' @ repr value"
  have run: "\<And>by_value. map_of (classes_by_constant_field w) fieldname = Some by_value \<Longrightarrow>
      subclass_with_constant_field repr w cls fieldname value =
        (case tuple_lookup by_value t of
           None \<Rightarrow> Inl (ValueError ?msg)
         | Some clsname \<Rightarrow>
             (case map_of (classes_by_name w) clsname of
                None \<Rightarrow> Inl (KeyError clsname)
              | Some c \<Rightarrow> Inr c))"
    using tup hash
    by (simp add: subclass_with_constant_field_def no_such_subclass_def find_by_name_def
          split: option.splits)
  show ?thesis
  proof (intro conjI allI impI)
    fix by_value k clsname
    assume reg: "map_of (classes_by_constant_field w) fieldname = Some by_value"
      and entry: "(k, clsname) \<in> set by_value"
      and len: "length k = length t"
      and mem: "\<forall>i < length t.
                   k ! i = t ! i
                   \<or> (\<exists>x. k ! i = PBool x \<and> t ! i = PInt (if x then 1 else 0))
                   \<or> (\<exists>x. k ! i = PInt (if x then 1 else 0) \<and> t ! i = PBool x)"
      and uniq: "\<forall>(k', c') \<in> set by_value.
                   length k' = length t
                   \<and> (\<forall>i < length t.
                          k' ! i = t ! i
                          \<or> (\<exists>x. k' ! i = PBool x \<and> t ! i = PInt (if x then 1 else 0))
                          \<or> (\<exists>x. k' ! i = PInt (if x then 1 else 0) \<and> t ! i = PBool x))
                   \<longrightarrow> c' = clsname"
    from len mem have "list_all2 atom_eq k t" by (rule same [THEN iffD2, OF conjI])
    with entry have "tuple_lookup by_value t \<noteq> None"
      by (auto simp: tuple_lookup_None_iff)
    then obtain c' where found: "tuple_lookup by_value t = Some c'" by auto
    from tuple_lookup_SomeD [OF this] obtain k' where
      e': "(k', c') \<in> set by_value" and m': "list_all2 atom_eq k' t" by blast
    from m' have "length k' = length t
                   \<and> (\<forall>i < length t.
                          k' ! i = t ! i
                          \<or> (\<exists>x. k' ! i = PBool x \<and> t ! i = PInt (if x then 1 else 0))
                          \<or> (\<exists>x. k' ! i = PInt (if x then 1 else 0) \<and> t ! i = PBool x))"
      by (rule same [THEN iffD1])
    with uniq e' have "c' = clsname" by blast
    with found run [OF reg]
    show "subclass_with_constant_field repr w cls fieldname value
            = (case map_of (classes_by_name w) clsname of
                 None \<Rightarrow> Inl (KeyError clsname)
               | Some c \<Rightarrow> Inr c)"
      by simp
  next
    assume miss: "map_of (classes_by_constant_field w) fieldname = None
            \<or> (\<exists>by_value.
                  map_of (classes_by_constant_field w) fieldname = Some by_value
                  \<and> (\<forall>(k, c) \<in> set by_value.
                         \<not> (length k = length t
                            \<and> (\<forall>i < length t.
                                   k ! i = t ! i
                                   \<or> (\<exists>x. k ! i = PBool x \<and> t ! i = PInt (if x then 1 else 0))
                                   \<or> (\<exists>x. k ! i = PInt (if x then 1 else 0) \<and> t ! i = PBool x)))))"
    then show "subclass_with_constant_field repr w cls fieldname value = Inl (ValueError ?msg)"
    proof
      assume "map_of (classes_by_constant_field w) fieldname = None"
      then show ?thesis
        by (simp add: subclass_with_constant_field_def no_such_subclass_def)
    next
      assume "\<exists>by_value.
                  map_of (classes_by_constant_field w) fieldname = Some by_value
                  \<and> (\<forall>(k, c) \<in> set by_value.
                         \<not> (length k = length t
                            \<and> (\<forall>i < length t.
                                   k ! i = t ! i
                                   \<or> (\<exists>x. k ! i = PBool x \<and> t ! i = PInt (if x then 1 else 0))
                                   \<or> (\<exists>x. k ! i = PInt (if x then 1 else 0) \<and> t ! i = PBool x))))"
      then obtain by_value where
        reg: "map_of (classes_by_constant_field w) fieldname = Some by_value"
        and none: "\<forall>(k, c) \<in> set by_value.
                         \<not> (length k = length t
                            \<and> (\<forall>i < length t.
                                   k ! i = t ! i
                                   \<or> (\<exists>x. k ! i = PBool x \<and> t ! i = PInt (if x then 1 else 0))
                                   \<or> (\<exists>x. k ! i = PInt (if x then 1 else 0) \<and> t ! i = PBool x)))"
        by blast
      have "\<forall>(k, c) \<in> set by_value. \<not> list_all2 atom_eq k t"
      proof (rule ballI)
        fix p assume p: "p \<in> set by_value"
        obtain k c where kc: "p = (k, c)" by (cases p)
        from none p kc have "\<not> (length k = length t
                            \<and> (\<forall>i < length t.
                                   k ! i = t ! i
                                   \<or> (\<exists>x. k ! i = PBool x \<and> t ! i = PInt (if x then 1 else 0))
                                   \<or> (\<exists>x. k ! i = PInt (if x then 1 else 0) \<and> t ! i = PBool x)))"
          by blast
        then have "\<not> list_all2 atom_eq k t" using same [THEN iffD1, of k] by blast
        then show "case p of (k, c) \<Rightarrow> \<not> list_all2 atom_eq k t" by (simp add: kc)
      qed
      then have "tuple_lookup by_value t = None" by (simp only: tuple_lookup_None_iff)
      with run [OF reg] show ?thesis by simp
    qed
  qed
qed

theorem C6_discriminator_dispatch_witness:
  "subclass_with_constant_field repr_example registry_example
      \<lparr>cls_id = 0, cls_name = ''Base'', cls_attrs = [], cls_fields = []\<rparr> ''kind'' (PStr ''b'')
     = Inr \<lparr>cls_id = 2, cls_name = ''TypeB'', cls_attrs = [], cls_fields = []\<rparr>
   \<and> subclass_with_constant_field repr_example registry_example
      \<lparr>cls_id = 0, cls_name = ''Base'', cls_attrs = [], cls_fields = []\<rparr> ''kind'' (PStr ''c'')
     = Inl (ValueError (''No such subclass of Base with field '' @ [CHR 0x27] @ ''kind'' @ [CHR 0x27]
                          @ '' equivalent to '' @ [CHR 0x27] @ ''c'' @ [CHR 0x27]))
   \<and> subclass_with_constant_field repr_example registry_example
      \<lparr>cls_id = 0, cls_name = ''Base'', cls_attrs = [], cls_fields = []\<rparr> ''sort'' (PStr ''a'')
     = Inl (ValueError (''No such subclass of Base with field '' @ [CHR 0x27] @ ''sort'' @ [CHR 0x27]
                          @ '' equivalent to '' @ [CHR 0x27] @ ''a'' @ [CHR 0x27]))
   \<and> subclass_with_constant_field repr_example registry_flags
      \<lparr>cls_id = 0, cls_name = ''Base'', cls_attrs = [], cls_fields = []\<rparr> ''flag'' (PList [PBool True])
     = Inr \<lparr>cls_id = 1, cls_name = ''Flagged'', cls_attrs = [], cls_fields = []\<rparr>"
proof -
  let ?Base = "\<lparr>cls_id = 0, cls_name = ''Base'', cls_attrs = [], cls_fields = []\<rparr> :: unit dataclass"
  let ?kinds = "[([PStr ''a''], ''TypeA''), ([PStr ''b''], ''TypeB'')]"
  let ?flags = "[([PInt 0], ''Base''), ([PInt 1], ''Flagged'')]"
  have reg: "map_of (classes_by_constant_field registry_example) ''kind'' = Some ?kinds"
    and unreg: "map_of (classes_by_constant_field registry_example) ''sort'' = None"
    and regf: "map_of (classes_by_constant_field registry_flags) ''flag'' = Some ?flags"
    by (simp_all add: registry_example_def registry_flags_def)
  have mb: "PStr ''b'' = PList [PStr ''b'']
           \<or> (\<exists>s. PStr ''b'' = PStr s \<and> [PStr ''b''] = map (\<lambda>c. PStr [c]) s)
           \<or> (\<exists>kvs. PStr ''b'' = PDict kvs \<and> [PStr ''b''] = map (\<lambda>kv. PStr (fst kv)) kvs)"
    and mc: "PStr ''c'' = PList [PStr ''c'']
           \<or> (\<exists>s. PStr ''c'' = PStr s \<and> [PStr ''c''] = map (\<lambda>c. PStr [c]) s)
           \<or> (\<exists>kvs. PStr ''c'' = PDict kvs \<and> [PStr ''c''] = map (\<lambda>kv. PStr (fst kv)) kvs)"
    and ma: "PStr ''a'' = PList [PStr ''a'']
           \<or> (\<exists>s. PStr ''a'' = PStr s \<and> [PStr ''a''] = map (\<lambda>c. PStr [c]) s)
           \<or> (\<exists>kvs. PStr ''a'' = PDict kvs \<and> [PStr ''a''] = map (\<lambda>kv. PStr (fst kv)) kvs)"
    and mt: "PList [PBool True] = PList [PBool True]
           \<or> (\<exists>s. PList [PBool True] = PStr s \<and> [PBool True] = map (\<lambda>c. PStr [c]) s)
           \<or> (\<exists>kvs. PList [PBool True] = PDict kvs \<and> [PBool True] = map (\<lambda>kv. PStr (fst kv)) kvs)"
    by simp_all
  have ab: "\<forall>v \<in> set [PStr ''b'']. (\<forall>xs. v \<noteq> PList xs) \<and> (\<forall>kvs. v \<noteq> PDict kvs)"
    and ac: "\<forall>v \<in> set [PStr ''c'']. (\<forall>xs. v \<noteq> PList xs) \<and> (\<forall>kvs. v \<noteq> PDict kvs)"
    and aa: "\<forall>v \<in> set [PStr ''a'']. (\<forall>xs. v \<noteq> PList xs) \<and> (\<forall>kvs. v \<noteq> PDict kvs)"
    and at: "\<forall>v \<in> set [PBool True]. (\<forall>xs. v \<noteq> PList xs) \<and> (\<forall>kvs. v \<noteq> PDict kvs)"
    by simp_all
  have hit: "subclass_with_constant_field repr_example registry_example ?Base ''kind'' (PStr ''b'')
      = (case map_of (classes_by_name registry_example) ''TypeB'' of
           None \<Rightarrow> Inl (KeyError ''TypeB'')
         | Some c \<Rightarrow> Inr c)"
    by (rule C6_discriminator_dispatch [OF mb ab, THEN conjunct1, rule_format, OF reg,
          of "[PStr ''b'']" "''TypeB''"])
       (auto simp: less_Suc_eq)
  have miss: "subclass_with_constant_field repr_example registry_example ?Base ''kind'' (PStr ''c'')
      = Inl (ValueError (''No such subclass of '' @ cls_name ?Base @ '' with field ''
                           @ repr_example (PStr ''kind'') @ '' equivalent to ''
                           @ repr_example (PStr ''c'')))"
    by (rule C6_discriminator_dispatch [OF mc ac, THEN conjunct2, rule_format])
       (simp add: reg)
  have nofield: "subclass_with_constant_field repr_example registry_example ?Base ''sort'' (PStr ''a'')
      = Inl (ValueError (''No such subclass of '' @ cls_name ?Base @ '' with field ''
                           @ repr_example (PStr ''sort'') @ '' equivalent to ''
                           @ repr_example (PStr ''a'')))"
    by (rule C6_discriminator_dispatch [OF ma aa, THEN conjunct2, rule_format])
       (simp add: unreg)
  have flag: "subclass_with_constant_field repr_example registry_flags ?Base ''flag'' (PList [PBool True])
      = (case map_of (classes_by_name registry_flags) ''Flagged'' of
           None \<Rightarrow> Inl (KeyError ''Flagged'')
         | Some c \<Rightarrow> Inr c)"
    by (rule C6_discriminator_dispatch [OF mt at, THEN conjunct1, rule_format, OF regf,
          of "[PInt 1]" "''Flagged''"])
       (auto simp: less_Suc_eq)
  from hit miss nofield flag show ?thesis
    by (simp add: registry_example_def registry_flags_def)
qed

text \<open>
  Claim C10 says that a value that is not iterable always makes the call raise the
  \<open>TypeError\<close> of \<open>tuple()\<close>. The subscription by the field name is evaluated
  before \<open>tuple(value)\<close>: on a field name that is not registered the \<open>KeyError\<close> is
  raised and caught first, and the integer \<open>1\<close> reaches the miss branch.
\<close>

theorem C10_counterexample:
  "py_tuple (PInt 1) = Inl TypeError
   \<and> subclass_with_constant_field (\<lambda>v. ''?'')
        \<lparr>next_id = 0, classes_by_name = [], classes_by_constant_field = []\<rparr>
        \<lparr>cls_id = 0, cls_name = ''Base'', cls_attrs = [], cls_fields = []\<rparr> ''kind'' (PInt 1)
      = (Inl (ValueError ''No such subclass of Base with field ? equivalent to ?'')
          :: error + unit dataclass)"
  by (simp add: subclass_with_constant_field_def no_such_subclass_def)

text \<open>
  Claim C10, amended. For a value that \<open>tuple()\<close> rejects, the call raises that
  \<open>TypeError\<close> when the field name is a key of \<open>classes_by_constant_field\<close>, and the
  \<open>ValueError\<close> of the miss branch when it is not.
\<close>

theorem C10_tuple_conversion:
  assumes "py_tuple value = Inl e"
  shows "subclass_with_constant_field repr w cls fieldname value =
           (if fieldname \<in> set (map fst (classes_by_constant_field w)) then Inl TypeError
            else Inl (ValueError (no_such_subclass repr (cls_name cls) fieldname value)))"
proof -
  have e: "e = TypeError" using assms by (cases "value") auto
  show ?thesis
  proof (cases "map_of (classes_by_constant_field w) fieldname")
    case None
    then have "fieldname \<notin> set (map fst (classes_by_constant_field w))"
      by (simp add: map_of_eq_None_iff)
    with None show ?thesis by (simp add: subclass_with_constant_field_def)
  next
    case (Some by_value)
    then have "fieldname \<in> set (map fst (classes_by_constant_field w))"
      using map_of_eq_None_iff [of "classes_by_constant_field w" fieldname] by auto
    with Some assms e show ?thesis by (simp add: subclass_with_constant_field_def)
  qed
qed

theorem C10_tuple_conversion_witness:
  "py_tuple (PInt 1) = Inl TypeError
   \<and> subclass_with_constant_field (\<lambda>v. ''?'') registry_example
        \<lparr>cls_id = 0, cls_name = ''Base'', cls_attrs = [], cls_fields = []\<rparr> ''kind'' (PInt 1)
      = Inl TypeError"
proof -
  have t: "py_tuple (PInt 1) = Inl TypeError" by simp
  show ?thesis
    using t C10_tuple_conversion [OF t, of "\<lambda>v. ''?''" registry_example
        "\<lparr>cls_id = 0, cls_name = ''Base'', cls_attrs = [], cls_fields = []\<rparr>" "''kind''"]
    by (simp add: registry_example_def)
qed

section \<open>Decoding and encoding\<close>

text \<open>
  Claim C1. For a class and a document \<open>d\<close> (a dictionary: its keys are distinct) that
  maps a key \<open>x\<close> to \<open>v\<close>, where no field of the class writes the key \<open>x\<close> and no
  field touches \<open>_originaldata\<close>: the instance that \<open>from_dict(d)\<close> returns has \<open>x\<close>
  in its \<open>_originaldata\<close> with the value \<open>v\<close>, and the document that \<open>to_dict()\<close>
  returns maps \<open>x\<close> to \<open>v\<close>.
\<close>

theorem C1_unknown_key_preservation:
  assumes "distinct (map fst d)" and "map_of d x = Some v"
    and "\<forall>(n, f) \<in> set (cls_fields cls). keeps_originaldata n f \<and> leaves_key x n f"
    and "from_dict cls d = Returned self"
    and "to_dict cls self = Inr out"
  shows "(\<exists>od. originaldata self = Some od \<and> map_of od x = Some v) \<and> map_of out x = Some v"
proof -
  let ?s0 = "remember (DataObject_init cls []) d"
  have keeps: "\<forall>(n, f) \<in> set (cls_fields cls). keeps_originaldata n f"
    and leaves: "\<forall>(n, f) \<in> set (cls_fields cls). leaves_key x n f"
    using assms(3) by auto
  have "self = state_of (decode_fields (cls_fields cls) d ?s0)"
    using assms(4) by (simp add: from_dict_def update_from_dict_def)
  then have "originaldata self = originaldata ?s0"
    using decode_fields_originaldata [OF keeps] by simp
  then have od: "originaldata self = Some (dict_update [] d)"
    by (simp add: originaldata_remember DataObject_init_def)
  have x: "map_of (dict_update [] d) x = Some v"
    using assms(1,2) by (simp add: map_of_dict_update_distinct)
  have "encode_fields (cls_fields cls) self (dict_update [] d) = Inr out"
    using assms(5) od by (simp add: to_dict_def deepcopy_dict_ident)
  from encode_fields_leaves_key [OF leaves this] x od show ?thesis by simp
qed

theorem C1_unknown_key_preservation_witness:
  "distinct (map fst [(''name'', PStr ''Fred''), (''x'', PInt 1)])
   \<and> map_of [(''name'', PStr ''Fred''), (''x'', PInt 1)] ''x'' = Some (PInt 1)
   \<and> from_dict Asset_cls [(''name'', PStr ''Fred''), (''x'', PInt 1)]
       = Returned \<lparr>inst_type = 1, inst_dict = [(''name'', PStr ''Fred'')],
                    originaldata = Some [(''name'', PStr ''Fred''), (''x'', PInt 1)]\<rparr>
   \<and> to_dict Asset_cls \<lparr>inst_type = 1, inst_dict = [(''name'', PStr ''Fred'')],
                          originaldata = Some [(''name'', PStr ''Fred''), (''x'', PInt 1)]\<rparr>
       = Inr [(''name'', PStr ''Fred''), (''x'', PInt 1)]
   \<and> map_of [(''name'', PStr ''Fred''), (''x'', PInt 1)] ''x'' = Some (PInt 1)"
proof -
  let ?d = "[(''name'', PStr ''Fred''), (''x'', PInt 1)]"
  let ?s = "\<lparr>inst_type = 1, inst_dict = [(''name'', PStr ''Fred'')], originaldata = Some ?d\<rparr>"
  have h1: "distinct (map fst ?d)" by simp
  have h2: "map_of ?d ''x'' = Some (PInt 1)" by simp
  have h3: "\<forall>(n, f) \<in> set (cls_fields Asset_cls). keeps_originaldata n f \<and> leaves_key ''x'' n f"
    by (simp add: Asset_cls_def plain_field_keeps_originaldata plain_field_leaves_key)
  have h4: "from_dict Asset_cls ?d = Returned ?s"
    by (simp add: from_dict_def update_from_dict_def remember_def DataObject_init_def
          Asset_cls_def plain_field_def dict_update_def deepcopy_dict_def)
  have h5: "to_dict Asset_cls ?s = Inr ?d"
    by (simp add: to_dict_def Asset_cls_def plain_field_def deepcopy_dict_def)
  from C1_unknown_key_preservation [OF h1 h2 h3 h4 h5] h1 h2 h4 h5 show ?thesis
    by simp
qed




section \<open>Field collection\<close>

text \<open>
  Claim C3. When the class body (a dictionary: distinct names) binds a name \<open>a\<close> to
  something that is not a descriptor, \<open>a\<close> is not a key of the field set of the new
  class, whatever the bases declare; and when each decoder of that field set stores its
  own attribute only, \<open>update_from_dict\<close> leaves the attribute \<open>a\<close> of the instance
  as it was.
\<close>

theorem C3_override_revocation:
  assumes "distinct (map fst attrs)" and "(a, Plain v) \<in> set attrs"
  shows "a \<notin> set (map fst (cls_fields (fst (DataObjectMetaclass_new w name bases attrs))))
       \<and> ((\<forall>(n, f) \<in> set (cls_fields (fst (DataObjectMetaclass_new w name bases attrs))).
              stores_own_attribute n f)
          \<longrightarrow> map_of (inst_dict (state_of
                  (update_from_dict (fst (DataObjectMetaclass_new w name bases attrs)) self data))) a
              = map_of (inst_dict self) a)"
proof -
  let ?child = "fst (DataObjectMetaclass_new w name bases attrs)"
  have pl: "a \<in> set (plain_names attrs)"
    using assms(2) by (auto simp: plain_names_iff)
  then have "a \<notin> set (map fst (declared_fields attrs))"
    using declared_plain_disjoint [OF assms(1)] by auto
  moreover have "set (map fst (cls_fields ?child))
      = set (filter (\<lambda>k. k \<notin> set (plain_names attrs)) (map fst (inherit_fields bases)))
        \<union> set (map fst (declared_fields attrs))"
    by (simp only: cls_fields_new_distinct [OF assms(1)] keys_set_dict_update keys_installed
          keys_filter_keys)
  ultimately have absent: "a \<notin> set (map fst (cls_fields ?child))"
    using pl by simp
  show ?thesis
  proof (intro conjI impI)
    show "a \<notin> set (map fst (cls_fields ?child))" by (rule absent)
  next
    assume own: "\<forall>(n, f) \<in> set (cls_fields ?child). stores_own_attribute n f"
    have "\<forall>(n, f) \<in> set (cls_fields ?child). n \<noteq> a \<and> stores_own_attribute n f"
      using own absent by force
    from decode_fields_other_attribute [OF this]
    show "map_of (inst_dict (state_of (update_from_dict ?child self data))) a
            = map_of (inst_dict self) a"
      by (simp add: update_from_dict_def remember_def)
  qed
qed

theorem C3_override_revocation_witness:
  "''a'' \<in> set (map fst (cls_fields (fst Base_built)))
   \<and> ''a'' \<notin> set (map fst (cls_fields (fst Revoking_built)))
   \<and> map_of (inst_dict (state_of (update_from_dict (fst Revoking_built)
               \<lparr>inst_type = 1, inst_dict = [], originaldata = None\<rparr>
               [(''a'', PInt 1), (''b'', PInt 2)]))) ''a'' = None
   \<and> map_of (inst_dict (state_of (update_from_dict (fst Revoking_built)
               \<lparr>inst_type = 1, inst_dict = [], originaldata = None\<rparr>
               [(''a'', PInt 1), (''b'', PInt 2)]))) ''b'' = Some (PInt 2)"
proof -
  let ?attrs = "[(''a'', Plain (PInt 7))] :: (string \<times> pyval attr) list"
  let ?self = "\<lparr>inst_type = 1, inst_dict = [], originaldata = None\<rparr> :: pyval instance"
  let ?d = "[(''a'', PInt 1), (''b'', PInt 2)]"
  have h1: "distinct (map fst ?attrs)" by simp
  have h2: "(''a'', Plain (PInt 7)) \<in> set ?attrs" by simp
  note inst = C3_override_revocation [OF h1 h2, of "snd Base_built" "''Revoking''"
      "[DataObjectClass (fst Base_built)]" ?self ?d, folded Revoking_built_def]
  have flds: "cls_fields (fst Revoking_built) = [(''b'', plain_field\<lparr>of_cls := Some 0\<rparr>)]"
    by (simp add: Revoking_built_def DataObjectMetaclass_new_def inherit_Base_built
          dict_update_def Let_def)
  have own: "\<forall>(n, f) \<in> set (cls_fields (fst Revoking_built)). stores_own_attribute n f"
    by (simp add: flds stores_own_attribute_def plain_field_def update_conv split: option.splits)
  have a: "''a'' \<in> set (map fst (cls_fields (fst Base_built)))"
    by (simp add: Base_built_fields)
  have b: "''a'' \<notin> set (map fst (cls_fields (fst Revoking_built)))"
    using inst by blast
  have c: "map_of (inst_dict (state_of (update_from_dict (fst Revoking_built) ?self ?d))) ''a'' = None"
    using inst own by simp
  have d: "map_of (inst_dict (state_of (update_from_dict (fst Revoking_built) ?self ?d))) ''b''
             = Some (PInt 2)"
    by (simp add: update_from_dict_def flds remember_def plain_field_def)
  from a b c d show ?thesis by simp
qed

text \<open>
  Claim C4. The inherited field set is built base by base: a base that is not a
  \<open>DataObject\<close> class adds nothing, and a later base's entry replaces the entry an
  earlier base gave the same name. In the new class a name declared as a descriptor is
  bound to that descriptor (with \<open>of_cls\<close> set to the new class), whatever was
  inherited; a name declared as something else is absent; any other name has its
  inherited entry.
\<close>

theorem C4_inheritance_merge_precedence:
  assumes "distinct (map fst attrs)" and "distinct (map fst (cls_fields b))"
  shows "inherit_fields (bases @ [OtherClass]) = inherit_fields bases
       \<and> map_of (inherit_fields (bases @ [DataObjectClass b])) k =
           (case map_of (cls_fields b) k of
              Some f \<Rightarrow> Some f
            | None \<Rightarrow> map_of (inherit_fields bases) k)
       \<and> map_of (cls_fields (fst (DataObjectMetaclass_new w name bases' attrs))) k =
           (case map_of attrs k of
              Some (Property f) \<Rightarrow> Some (f\<lparr>of_cls := Some (next_id w)\<rparr>)
            | Some (Plain v) \<Rightarrow> None
            | None \<Rightarrow> map_of (inherit_fields bases') k)"
proof (intro conjI)
  show "inherit_fields (bases @ [OtherClass]) = inherit_fields bases"
    by (simp add: inherit_fields_snoc)
next
  show "map_of (inherit_fields (bases @ [DataObjectClass b])) k =
          (case map_of (cls_fields b) k of
             Some f \<Rightarrow> Some f
           | None \<Rightarrow> map_of (inherit_fields bases) k)"
    using assms(2)
    by (simp add: inherit_fields_snoc map_of_dict_update_distinct split: option.splits)
next
  let ?g = "\<lambda>f :: 'a property. f\<lparr>of_cls := Some (next_id w)\<rparr>"
  let ?installed = "map (\<lambda>(k, f). (k, ?g f)) (declared_fields attrs)"
  have d: "distinct (map fst ?installed)"
    using distinct_declared_fields [OF assms(1)] by (simp only: keys_installed)
  have new: "map_of ?installed k =
               (case map_of attrs k of Some (Property f) \<Rightarrow> Some (?g f) | _ \<Rightarrow> None)"
    by (simp add: map_of_installed map_of_declared_fields [OF assms(1)]
          split: option.splits attr.splits)
  have pl: "k \<in> set (plain_names attrs) \<longleftrightarrow> (\<exists>v. map_of attrs k = Some (Plain v))"
    by (rule map_of_plain [OF assms(1)])
  have "map_of (cls_fields (fst (DataObjectMetaclass_new w name bases' attrs))) k =
          (case map_of ?installed k of
             None \<Rightarrow> (if k \<notin> set (plain_names attrs) then map_of (inherit_fields bases') k else None)
           | Some f \<Rightarrow> Some f)"
    by (simp only: cls_fields_new_distinct [OF assms(1)] map_of_dict_update_distinct [OF d]
          map_of_filter_keys)
  then show "map_of (cls_fields (fst (DataObjectMetaclass_new w name bases' attrs))) k =
          (case map_of attrs k of
             Some (Property f) \<Rightarrow> Some (f\<lparr>of_cls := Some (next_id w)\<rparr>)
           | Some (Plain v) \<Rightarrow> None
           | None \<Rightarrow> map_of (inherit_fields bases') k)"
    using new pl by (auto split: option.splits attr.splits)
qed

theorem C4_inheritance_merge_precedence_witness:
  "map_of (cls_fields (fst Child_built)) ''a'' = Some (plain_field\<lparr>of_cls := Some 1\<rparr>)
   \<and> map_of (cls_fields (fst Child_built)) ''b'' = Some (plain_field\<lparr>of_cls := Some 0\<rparr>)
   \<and> map_of (cls_fields (fst Revoking_built)) ''a'' = None
   \<and> map_of (inherit_fields ([DataObjectClass (fst Base_built)] @ [DataObjectClass (fst Child_built)])) ''a''
       = Some (plain_field\<lparr>of_cls := Some 1\<rparr>)
   \<and> map_of (inherit_fields ([DataObjectClass (fst Child_built)] @ [DataObjectClass (fst Base_built)])) ''a''
       = Some (plain_field\<lparr>of_cls := Some 0\<rparr>)"
proof -
  let ?child = "[(''c'', Property plain_field), (''a'', Property plain_field)]"
  let ?rev = "[(''a'', Plain (PInt 7))] :: (string \<times> pyval attr) list"
  have h1: "distinct (map fst ?child)" and h1': "distinct (map fst ?rev)" by simp_all
  have h2: "distinct (map fst (cls_fields (fst Base_built)))"
    by (simp add: Base_built_fields)
  note child = C4_inheritance_merge_precedence [OF h1 h2, of "[]" _ "snd Base_built" "''Child''"
      "[DataObjectClass (fst Base_built)]", folded Child_built_def]
  note rev = C4_inheritance_merge_precedence [OF h1' h2, of "[]" _ "snd Base_built" "''Revoking''"
      "[DataObjectClass (fst Base_built)]", folded Revoking_built_def]
  have a: "map_of (cls_fields (fst Child_built)) ''a'' = Some (plain_field\<lparr>of_cls := Some 1\<rparr>)"
    using child [of "''a''"] by (simp add: Base_built_next_id)
  have b: "map_of (cls_fields (fst Child_built)) ''b'' = Some (plain_field\<lparr>of_cls := Some 0\<rparr>)"
    using child [of "''b''"] by (simp add: inherit_Base_built)
  have c: "map_of (cls_fields (fst Revoking_built)) ''a'' = None"
    using rev [of "''a''"] by simp
  have cf: "distinct (map fst (cls_fields (fst Child_built)))"
    by (simp add: Child_built_fields)
  have d: "map_of (inherit_fields ([DataObjectClass (fst Base_built)] @ [DataObjectClass (fst Child_built)])) ''a''
             = Some (plain_field\<lparr>of_cls := Some 1\<rparr>)"
    using C4_inheritance_merge_precedence [OF h1 cf, of "[DataObjectClass (fst Base_built)]" "''a''"] a
    by simp
  have e: "map_of (inherit_fields ([DataObjectClass (fst Child_built)] @ [DataObjectClass (fst Base_built)])) ''a''
             = Some (plain_field\<lparr>of_cls := Some 0\<rparr>)"
    using C4_inheritance_merge_precedence [OF h1 h2, of "[DataObjectClass (fst Child_built)]" "''a''"]
    by (simp add: Base_built_fields)
  from a b c d e show ?thesis by simp
qed

section \<open>Equality\<close>

text \<open>
  Claim C5. \<open>x == y\<close> returns \<open>True\<close> exactly when \<open>x\<close> and \<open>y\<close> have the same type
  and, for every field-set entry that is a \<open>Field\<close>, both attributes can be read and
  \<open>!=\<close> does not hold between them. \<open>x != y\<close> returns the negation of what \<open>x == y\<close>
  returns and raises what it raises. The result depends on the two instances only
  through their types and the attributes named by \<open>Field\<close> entries. Hence, when
  \<open>getattr\<close> does not read \<open>_originaldata\<close>, two instances built by \<open>from_dict\<close> from
  documents that differ only in a key \<open>u\<close> that every decoder ignores compare equal,
  provided the \<open>Field\<close> attributes of the first can be read and compare equal to
  themselves.
\<close>

theorem C5_equality:
  "(DataObject_eq getattr ne cls x y = Inr True \<longleftrightarrow>
      inst_type x = inst_type y
      \<and> (\<forall>(k, f) \<in> set (cls_fields cls). is_Field f \<longrightarrow>
            (\<exists>a b. getattr x k = Inr a \<and> getattr y k = Inr b \<and> \<not> ne a b)))
   \<and> (DataObject_ne getattr ne cls x y = Inr r \<longleftrightarrow> DataObject_eq getattr ne cls x y = Inr (\<not> r))
   \<and> (DataObject_ne getattr ne cls x y = Inl e \<longleftrightarrow> DataObject_eq getattr ne cls x y = Inl e)
   \<and> (inst_type x' = inst_type x \<and> inst_type y' = inst_type y
        \<and> (\<forall>(k, f) \<in> set (cls_fields cls). is_Field f \<longrightarrow>
              getattr x' k = getattr x k \<and> getattr y' k = getattr y k)
       \<longrightarrow> DataObject_eq getattr ne cls x' y' = DataObject_eq getattr ne cls x y)
   \<and> ((\<forall>s s' k. same_attributes s s' \<longrightarrow> getattr s k = getattr s' k)
        \<and> (\<forall>k. k \<noteq> u \<longrightarrow> map_of d1 k = map_of d2 k)
        \<and> (\<forall>(n, f) \<in> set (cls_fields cls). ignores_key u n f)
        \<and> from_dict cls d1 = Returned i1 \<and> from_dict cls d2 = Returned i2
        \<and> (\<forall>(k, f) \<in> set (cls_fields cls). is_Field f \<longrightarrow> (\<exists>a. getattr i1 k = Inr a \<and> \<not> ne a a))
       \<longrightarrow> DataObject_eq getattr ne cls i1 i2 = Inr True)"
proof (intro conjI impI)
  show "DataObject_eq getattr ne cls x y = Inr True \<longleftrightarrow>
      inst_type x = inst_type y
      \<and> (\<forall>(k, f) \<in> set (cls_fields cls). is_Field f \<longrightarrow>
            (\<exists>a b. getattr x k = Inr a \<and> getattr y k = Inr b \<and> \<not> ne a b))"
    by (simp add: DataObject_eq_def eq_fields_True)
next
  show "DataObject_ne getattr ne cls x y = Inr r \<longleftrightarrow> DataObject_eq getattr ne cls x y = Inr (\<not> r)"
    by (auto simp: DataObject_ne_def split: sum.splits)
next
  show "DataObject_ne getattr ne cls x y = Inl e \<longleftrightarrow> DataObject_eq getattr ne cls x y = Inl e"
    by (auto simp: DataObject_ne_def split: sum.splits)
next
  assume "inst_type x' = inst_type x \<and> inst_type y' = inst_type y
        \<and> (\<forall>(k, f) \<in> set (cls_fields cls). is_Field f \<longrightarrow>
              getattr x' k = getattr x k \<and> getattr y' k = getattr y k)"
  then show "DataObject_eq getattr ne cls x' y' = DataObject_eq getattr ne cls x y"
    using eq_fields_cong [of "cls_fields cls" getattr x' x y' y ne]
    by (simp add: DataObject_eq_def)
next
  assume a: "(\<forall>s s' k. same_attributes s s' \<longrightarrow> getattr s k = getattr s' k)
        \<and> (\<forall>k. k \<noteq> u \<longrightarrow> map_of d1 k = map_of d2 k)
        \<and> (\<forall>(n, f) \<in> set (cls_fields cls). ignores_key u n f)
        \<and> from_dict cls d1 = Returned i1 \<and> from_dict cls d2 = Returned i2
        \<and> (\<forall>(k, f) \<in> set (cls_fields cls). is_Field f \<longrightarrow> (\<exists>a. getattr i1 k = Inr a \<and> \<not> ne a a))"
  then have ga: "\<And>s s' k. same_attributes s s' \<Longrightarrow> getattr s k = getattr s' k"
    and agree: "\<forall>k. k \<noteq> u \<longrightarrow> map_of d1 k = map_of d2 k"
    and ign: "\<forall>(n, f) \<in> set (cls_fields cls). ignores_key u n f"
    and f1: "from_dict cls d1 = Returned i1" and f2: "from_dict cls d2 = Returned i2"
    and rd: "\<forall>(k, f) \<in> set (cls_fields cls). is_Field f \<longrightarrow> (\<exists>a. getattr i1 k = Inr a \<and> \<not> ne a a)"
    by blast+
  let ?s0 = "DataObject_init cls []"
  have "same_outcome (decode_fields (cls_fields cls) d1 (remember ?s0 d1))
                     (decode_fields (cls_fields cls) d2 (remember ?s0 d2))"
    by (rule decode_fields_ignores_key [OF agree ign same_attributes_remember [OF same_attributes_refl]])
  then have same: "same_attributes i1 i2"
    using f1 f2 by (simp add: from_dict_def update_from_dict_def)
  then have g: "\<And>k. getattr i2 k = getattr i1 k"
    using ga [of i1 i2] by simp
  have "inst_type i1 = inst_type i2" using same by (simp add: same_attributes_def)
  moreover have "\<forall>(k, f) \<in> set (cls_fields cls). is_Field f \<longrightarrow>
            (\<exists>a b. getattr i1 k = Inr a \<and> getattr i2 k = Inr b \<and> \<not> ne a b)"
    using rd g by fastforce
  ultimately show "DataObject_eq getattr ne cls i1 i2 = Inr True"
    by (simp add: DataObject_eq_def eq_fields_True)
qed

theorem C5_equality_witness:
  "from_dict Asset_cls [(''name'', PStr ''Fred''), (''x'', PInt 1)]
     = Returned \<lparr>inst_type = 1, inst_dict = [(''name'', PStr ''Fred'')],
                  originaldata = Some [(''name'', PStr ''Fred''), (''x'', PInt 1)]\<rparr>
   \<and> from_dict Asset_cls [(''name'', PStr ''Fred''), (''x'', PInt 2)]
     = Returned \<lparr>inst_type = 1, inst_dict = [(''name'', PStr ''Fred'')],
                  originaldata = Some [(''name'', PStr ''Fred''), (''x'', PInt 2)]\<rparr>
   \<and> DataObject_eq dict_getattr (\<lambda>a b. a \<noteq> b) Asset_cls
        \<lparr>inst_type = 1, inst_dict = [(''name'', PStr ''Fred'')],
         originaldata = Some [(''name'', PStr ''Fred''), (''x'', PInt 1)]\<rparr>
        \<lparr>inst_type = 1, inst_dict = [(''name'', PStr ''Fred'')],
         originaldata = Some [(''name'', PStr ''Fred''), (''x'', PInt 2)]\<rparr> = Inr True
   \<and> DataObject_ne dict_getattr (\<lambda>a b. a \<noteq> b) Asset_cls
        \<lparr>inst_type = 1, inst_dict = [(''name'', PStr ''Fred'')],
         originaldata = Some [(''name'', PStr ''Fred''), (''x'', PInt 1)]\<rparr>
        \<lparr>inst_type = 1, inst_dict = [(''name'', PStr ''Fred'')],
         originaldata = Some [(''name'', PStr ''Fred''), (''x'', PInt 2)]\<rparr> = Inr False"
proof -
  let ?d1 = "[(''name'', PStr ''Fred''), (''x'', PInt 1)]"
  let ?d2 = "[(''name'', PStr ''Fred''), (''x'', PInt 2)]"
  let ?i1 = "\<lparr>inst_type = 1, inst_dict = [(''name'', PStr ''Fred'')], originaldata = Some ?d1\<rparr>"
  let ?i2 = "\<lparr>inst_type = 1, inst_dict = [(''name'', PStr ''Fred'')], originaldata = Some ?d2\<rparr>"
  let ?ne = "\<lambda>a b :: pyval. a \<noteq> b"
  have f1: "from_dict Asset_cls ?d1 = Returned ?i1" and f2: "from_dict Asset_cls ?d2 = Returned ?i2"
    by (simp_all add: from_dict_def update_from_dict_def remember_def DataObject_init_def
          Asset_cls_def plain_field_def dict_update_def deepcopy_dict_def)
  have ga: "\<forall>s s' k. same_attributes s s' \<longrightarrow> (dict_getattr s k :: error + pyval) = dict_getattr s' k"
    using dict_getattr_same_attributes by blast
  have agree: "\<forall>k. k \<noteq> ''x'' \<longrightarrow> map_of ?d1 k = map_of ?d2 k" by simp
  have ign: "\<forall>(n, f) \<in> set (cls_fields Asset_cls). ignores_key ''x'' n f"
    by (simp add: Asset_cls_def plain_field_ignores_key)
  have rd: "\<forall>(k, f) \<in> set (cls_fields Asset_cls). is_Field f \<longrightarrow>
              (\<exists>a. dict_getattr ?i1 k = Inr a \<and> \<not> ?ne a a)"
    by (simp add: Asset_cls_def dict_getattr_def)
  have e: "DataObject_eq dict_getattr ?ne Asset_cls ?i1 ?i2 = Inr True"
    by (rule C5_equality [where u = "''x''" and ?d1.0 = ?d1 and ?d2.0 = ?d2,
          THEN conjunct2, THEN conjunct2, THEN conjunct2, THEN conjunct2, THEN mp])
       (intro conjI ga agree ign f1 f2 rd)
  then have e': "DataObject_eq dict_getattr ?ne Asset_cls ?i1 ?i2 = Inr (\<not> False)"
    by simp
  have n: "DataObject_ne dict_getattr ?ne Asset_cls ?i1 ?i2 = Inr False"
    by (rule C5_equality [THEN conjunct2, THEN conjunct1, THEN iffD2, OF e'])
  from f1 f2 e n show ?thesis by (intro conjI)
qed

text \<open>
  Claim C7. Let the field set be \<open>before @ (n, f) # after\<close>. If the decoders of
  \<open>before\<close> return and \<open>decode_into\<close> of \<open>f\<close> raises \<open>e\<close>, leaving the instance in the
  state \<open>s'\<close>, then \<open>update_from_dict\<close> raises \<open>e\<close> and leaves the instance in \<open>s'\<close>,
  whatever \<open>after\<close> holds; likewise \<open>to_dict\<close> raises the error of the first encoder
  that raises. The decoders start from the instance whose \<open>_originaldata\<close> has taken
  in the document: when no field touches \<open>_originaldata\<close>, it is the merged dictionary
  in the final state, also after a failure.
\<close>

theorem C7_error_propagation:
  assumes "cls_fields cls = before @ (n, f) # after"
  shows "(\<forall>dec s e s'. decode_into f = Some dec
            \<longrightarrow> decode_fields before data (remember self data) = Returned s
            \<longrightarrow> dec data s n = Raised e s'
            \<longrightarrow> update_from_dict cls self data = Raised e s')
       \<and> (\<forall>enc doc e. encode_into f = Some enc
            \<longrightarrow> encode_fields before self
                  (case originaldata self of Some od \<Rightarrow> deepcopy_dict od | None \<Rightarrow> []) = Inr doc
            \<longrightarrow> enc self doc n = Inl e
            \<longrightarrow> to_dict cls self = Inl e)
       \<and> ((\<forall>(m, g) \<in> set (cls_fields cls). keeps_originaldata m g)
            \<longrightarrow> originaldata (state_of (update_from_dict cls self data))
                = Some (dict_update (case originaldata self of None \<Rightarrow> [] | Some od \<Rightarrow> od) data))"
proof (intro conjI allI impI)
  fix dec s e s'
  assume "decode_into f = Some dec"
    and "decode_fields before data (remember self data) = Returned s"
    and "dec data s n = Raised e s'"
  then show "update_from_dict cls self data = Raised e s'"
    by (simp add: update_from_dict_def assms decode_fields_append)
next
  fix enc doc e
  assume "encode_into f = Some enc"
    and "encode_fields before self
           (case originaldata self of Some od \<Rightarrow> deepcopy_dict od | None \<Rightarrow> []) = Inr doc"
    and "enc self doc n = Inl e"
  then show "to_dict cls self = Inl e"
    by (simp add: to_dict_def assms encode_fields_append)
next
  assume "\<forall>(m, g) \<in> set (cls_fields cls). keeps_originaldata m g"
  from decode_fields_originaldata [OF this]
  show "originaldata (state_of (update_from_dict cls self data))
          = Some (dict_update (case originaldata self of None \<Rightarrow> [] | Some od \<Rightarrow> od) data)"
    by (simp add: update_from_dict_def originaldata_remember)
qed

theorem C7_error_propagation_witness:
  "cls_fields Broken_cls = [(''a'', plain_field)] @ (''bad'', failing_field) # [(''c'', plain_field)]
   \<and> update_from_dict Broken_cls (DataObject_init Broken_cls []) [(''a'', PInt 1), (''c'', PInt 3)]
       = Raised (OtherError ''decode'')
           \<lparr>inst_type = 2, inst_dict = [(''a'', PInt 1)],
            originaldata = Some [(''a'', PInt 1), (''c'', PInt 3)]\<rparr>
   \<and> to_dict Broken_cls (DataObject_init Broken_cls []) = Inl (OtherError ''encode'')
   \<and> originaldata (state_of (update_from_dict Broken_cls (DataObject_init Broken_cls [])
                                 [(''a'', PInt 1), (''c'', PInt 3)]))
       = Some [(''a'', PInt 1), (''c'', PInt 3)]"
proof -
  let ?d = "[(''a'', PInt 1), (''c'', PInt 3)]"
  let ?self = "DataObject_init Broken_cls [] :: pyval instance"
  let ?s = "\<lparr>inst_type = 2, inst_dict = [(''a'', PInt 1)], originaldata = Some ?d\<rparr>"
  have h: "cls_fields Broken_cls
             = [(''a'', plain_field)] @ (''bad'', failing_field) # [(''c'', plain_field)]"
    by (simp add: Broken_cls_def)
  note inst = C7_error_propagation [OF h, of ?d ?self]
  have dec: "decode_into failing_field
               = Some (\<lambda>data obj field_name. Raised (OtherError ''decode'') obj)"
    and enc: "encode_into failing_field = Some (\<lambda>obj data field_name. Inl (OtherError ''encode''))"
    by (simp_all add: failing_field_def)
  have before: "decode_fields [(''a'', plain_field)] ?d (remember ?self ?d) = Returned ?s"
    by (simp add: remember_def DataObject_init_def Broken_cls_def plain_field_def
          dict_update_def deepcopy_dict_def)
  have a: "update_from_dict Broken_cls ?self ?d = Raised (OtherError ''decode'') ?s"
    using inst dec before by blast
  have before': "encode_fields [(''a'', plain_field)] ?self
                   (case originaldata ?self of Some od \<Rightarrow> deepcopy_dict od | None \<Rightarrow> []) = Inr []"
    by (simp add: DataObject_init_def plain_field_def dict_update_def)
  have b: "to_dict Broken_cls ?self = Inl (OtherError ''encode'')"
    using inst enc before' by blast
  have keeps: "\<forall>(m, g) \<in> set (cls_fields Broken_cls). keeps_originaldata m g"
    by (simp add: Broken_cls_def plain_field_keeps_originaldata failing_field_keeps_originaldata)
  have c: "originaldata (state_of (update_from_dict Broken_cls ?self ?d)) = Some ?d"
    using inst keeps by (simp add: DataObject_init_def dict_update_def)
  from h a b c show ?thesis by simp
qed

section \<open>The order of the field set\<close>




end
